theory Spec2Isabelle
  imports Main "HOL-Library.Sublist" "HOL-Library.Monad_Syntax" "HOL-Library.Word"
begin

section \<open>Tokens (src/lexer/token.h, token.c) and diagnostics (src/common/common.h)\<close>

datatype TokenType =
    TOKEN_EOF
  | TOKEN_INT | TOKEN_FLOAT | TOKEN_CHAR | TOKEN_BOOL | TOKEN_VOID
  | TOKEN_IF | TOKEN_ELSE | TOKEN_WHILE | TOKEN_FOR | TOKEN_RETURN
  | TOKEN_BREAK | TOKEN_CONTINUE | TOKEN_TRUE | TOKEN_FALSE | TOKEN_NULL
  | TOKEN_IDENTIFIER | TOKEN_INTEGER_LITERAL | TOKEN_FLOAT_LITERAL
  | TOKEN_STRING_LITERAL | TOKEN_CHAR_LITERAL
  | TOKEN_ASSIGN | TOKEN_PLUS | TOKEN_MINUS | TOKEN_MULTIPLY | TOKEN_DIVIDE
  | TOKEN_MODULO | TOKEN_INCREMENT | TOKEN_DECREMENT
  | TOKEN_EQUAL | TOKEN_NOT_EQUAL | TOKEN_LESS | TOKEN_GREATER
  | TOKEN_LESS_EQUAL | TOKEN_GREATER_EQUAL
  | TOKEN_LOGICAL_AND | TOKEN_LOGICAL_OR | TOKEN_LOGICAL_NOT
  | TOKEN_BITWISE_AND | TOKEN_BITWISE_OR | TOKEN_BITWISE_XOR | TOKEN_BITWISE_NOT
  | TOKEN_LEFT_SHIFT | TOKEN_RIGHT_SHIFT
  | TOKEN_LEFT_PAREN | TOKEN_RIGHT_PAREN | TOKEN_LEFT_BRACE | TOKEN_RIGHT_BRACE
  | TOKEN_LEFT_BRACKET | TOKEN_RIGHT_BRACKET | TOKEN_SEMICOLON | TOKEN_COMMA
  | TOKEN_DOT | TOKEN_COLON | TOKEN_QUESTION
  | TOKEN_UNKNOWN | TOKEN_NEWLINE

text \<open>
  The \<open>literal\<close> union of a token. \<open>NoLiteral\<close> is the zero-filled union that
  \<open>token_create\<close> leaves behind. The float payload keeps the text handed to \<open>atof\<close>:
  floating-point values are not modelled.
\<close>

datatype TokenLiteral =
    NoLiteral
  | IntLiteral "32 word"
  | FloatLiteral string
  | StringLiteral string
  | CharLiteral char

record Token =
  t_type :: TokenType
  lexeme :: string
  t_line :: nat
  t_column :: nat
  literal :: TokenLiteral

datatype ErrorCode =
    ERROR_NONE | ERROR_LEXICAL | ERROR_SYNTAX | ERROR_SEMANTIC
  | ERROR_CODE_GENERATION | ERROR_MEMORY | ERROR_IO

record Error =
  e_code :: ErrorCode
  e_message :: string
  e_line :: nat
  e_column :: nat
  e_file :: "string option"

definition error_create :: "ErrorCode \<Rightarrow> string \<Rightarrow> nat \<Rightarrow> nat \<Rightarrow> string option \<Rightarrow> Error" where
  "error_create c msg ln col f =
     \<lparr>e_code = c, e_message = msg, e_line = ln, e_column = col, e_file = f\<rparr>"

subsection \<open>Character classes of \<open>ctype.h\<close> in the C locale\<close>

definition isdigit :: "char \<Rightarrow> bool" where
  "isdigit c = (48 \<le> (of_char c :: nat) \<and> (of_char c :: nat) \<le> 57)"

definition isalpha :: "char \<Rightarrow> bool" where
  "isalpha c = ((65 \<le> (of_char c :: nat) \<and> (of_char c :: nat) \<le> 90)
              \<or> (97 \<le> (of_char c :: nat) \<and> (of_char c :: nat) \<le> 122))"

definition isalnum :: "char \<Rightarrow> bool" where
  "isalnum c = (isalpha c \<or> isdigit c)"

definition isspace :: "char \<Rightarrow> bool" where
  "isspace c = ((of_char c :: nat) = 32 \<or> (9 \<le> (of_char c :: nat) \<and> (of_char c :: nat) \<le> 13))"

subsection \<open>Token construction\<close>

text \<open>
  \<open>atoi\<close>: optional white space, an optional sign, then decimal digits up to the first
  non-digit; \<open>decimal_value\<close> is the number these characters denote. A C \<open>int\<close> has 32
  bits and is a \<open>32 word\<close> here, read as a signed number by \<open>sint\<close>. The C standard leaves
  \<open>atoi\<close> undefined once the number is outside the range of \<open>int\<close>; the C library computes
  \<open>(int) strtol(s, NULL, 10)\<close>, where \<open>strtol\<close> stops at \<open>LONG_MIN\<close> and \<open>LONG_MAX\<close> (64
  bits) and the conversion to \<open>int\<close> keeps the low 32 bits. That is what the model
  returns: the lexeme 2147483648 is stored as -2147483648.
\<close>

fun atoi_digits :: "string \<Rightarrow> int \<Rightarrow> int" where
  "atoi_digits [] acc = acc"
| "atoi_digits (c # cs) acc =
     (if isdigit c then atoi_digits cs (acc * 10 + (int (of_char c) - 48)) else acc)"

definition decimal_value :: "string \<Rightarrow> int" where
  "decimal_value s =
     (case dropWhile isspace s of
        [] \<Rightarrow> 0
      | c # cs \<Rightarrow>
          if c = CHR ''-'' then - atoi_digits cs 0
          else if c = CHR ''+'' then atoi_digits cs 0
          else atoi_digits (c # cs) 0)"

definition LONG_MAX :: int where "LONG_MAX = 9223372036854775807"
definition LONG_MIN :: int where "LONG_MIN = - 9223372036854775808"

definition strtol :: "string \<Rightarrow> int" where
  "strtol s = max LONG_MIN (min LONG_MAX (decimal_value s))"

definition atoi :: "string \<Rightarrow> 32 word" where
  "atoi s = word_of_int (strtol s)"

definition token_create :: "TokenType \<Rightarrow> string \<Rightarrow> nat \<Rightarrow> nat \<Rightarrow> Token" where
  "token_create ty lx ln col =
     \<lparr>t_type = ty, lexeme = lx, t_line = ln, t_column = col, literal = NoLiteral\<rparr>"

definition token_create_with_literal :: "TokenType \<Rightarrow> string \<Rightarrow> nat \<Rightarrow> nat \<Rightarrow> Token" where
  "token_create_with_literal ty lx ln col =
     (token_create ty lx ln col)
       \<lparr>literal :=
          (if ty = TOKEN_INTEGER_LITERAL then IntLiteral (atoi lx)
           else if ty = TOKEN_FLOAT_LITERAL then FloatLiteral lx
           else if ty = TOKEN_STRING_LITERAL then
             (if 2 \<le> length lx then StringLiteral (take (length lx - 2) (drop 1 lx))
              else NoLiteral)
           else if ty = TOKEN_CHAR_LITERAL then
             (if 3 \<le> length lx then CharLiteral (lx ! 1) else NoLiteral)
           else NoLiteral)\<rparr>"

text \<open>The keyword table of token.c, scanned in order.\<close>

definition keyword_table :: "(string \<times> TokenType) list" where
  "keyword_table =
     [(''int'', TOKEN_INT), (''float'', TOKEN_FLOAT), (''char'', TOKEN_CHAR),
      (''bool'', TOKEN_BOOL), (''void'', TOKEN_VOID), (''if'', TOKEN_IF),
      (''else'', TOKEN_ELSE), (''while'', TOKEN_WHILE), (''for'', TOKEN_FOR),
      (''return'', TOKEN_RETURN), (''break'', TOKEN_BREAK),
      (''continue'', TOKEN_CONTINUE), (''true'', TOKEN_TRUE),
      (''false'', TOKEN_FALSE), (''null'', TOKEN_NULL)]"

fun keyword_scan :: "(string \<times> TokenType) list \<Rightarrow> string \<Rightarrow> TokenType option" where
  "keyword_scan [] lx = None"
| "keyword_scan ((k, ty) # rest) lx = (if lx = k then Some ty else keyword_scan rest lx)"

text \<open>
  \<open>token_is_keyword(lexeme, &type)\<close>: the out-parameter is written only on a match, so
  the model returns the type to use, starting from the caller's default.
\<close>

definition token_is_keyword :: "string \<Rightarrow> TokenType \<Rightarrow> bool \<times> TokenType" where
  "token_is_keyword lx dflt =
     (case keyword_scan keyword_table lx of None \<Rightarrow> (False, dflt) | Some ty \<Rightarrow> (True, ty))"

section \<open>Tokenizer (src/lexer/lexer.h, lexer.c)\<close>

text \<open>
  \<open>source\<close> is the C string without its terminating NUL, so the buffer that
  \<open>lexer_create\<close> allocates has \<open>length source + 1\<close> bytes and index \<open>length source\<close>
  holds the NUL. Reading any index beyond that is a read outside the buffer: a function
  that does so has no result (\<open>None\<close>). \<open>position\<close>, \<open>line\<close> and \<open>column\<close> are C
  \<open>int\<close>s that only count upwards from 0 or 1; they are natural numbers here.
\<close>

record Lexer =
  source :: string
  position :: nat
  l_line :: nat
  l_column :: nat
  current_char :: char
  l_had_error :: bool
  l_last_error :: "Error option"

definition NUL :: char where "NUL = CHR 0x00"
definition dquote :: char where "dquote = CHR 0x22"
definition squote :: char where "squote = CHR 0x27"
definition backslash :: char where "backslash = CHR 0x5C"

text \<open>\<open>source[i]\<close> for an index inside the buffer.\<close>

definition source_at :: "string \<Rightarrow> nat \<Rightarrow> char" where
  "source_at src i = (if i < length src then src ! i else NUL)"

text \<open>\<open>strdup_safe\<close> copies up to the first NUL.\<close>

definition strdup_safe :: "string \<Rightarrow> string" where
  "strdup_safe s = takeWhile (\<lambda>c. c \<noteq> NUL) s"

definition lexer_create :: "string \<Rightarrow> Lexer" where
  "lexer_create src =
     \<lparr>source = strdup_safe src, position = 0, l_line = 1, l_column = 1,
      current_char = source_at (strdup_safe src) 0, l_had_error = False, l_last_error = None\<rparr>"

definition advance :: "Lexer \<Rightarrow> Lexer option" where
  "advance l =
     (if position l < length (source l) then
        Some (l\<lparr>l_line := (if current_char l = CHR 0x0A then l_line l + 1 else l_line l),
                l_column := (if current_char l = CHR 0x0A then 1 else l_column l + 1),
                position := position l + 1,
                current_char := source_at (source l) (position l + 1)\<rparr>)
      else None)"

definition peek :: "Lexer \<Rightarrow> char option" where
  "peek l =
     (if position l < length (source l) then Some (source_at (source l) (position l + 1))
      else None)"

definition match :: "Lexer \<Rightarrow> char \<Rightarrow> (bool \<times> Lexer) option" where
  "match l expected =
     (if current_char l = expected then
        (case advance l of None \<Rightarrow> None | Some l' \<Rightarrow> Some (True, l'))
      else Some (False, l))"

text \<open>The input that is left: the measure of every loop of the tokenizer.\<close>

definition remaining :: "Lexer \<Rightarrow> nat" where
  "remaining l = length (source l) - position l"

lemma advance_remaining: "advance l = Some l' \<Longrightarrow> remaining l' < remaining l"
  by (auto simp: advance_def remaining_def split: if_splits)

lemma advance_source: "advance l = Some l' \<Longrightarrow> source l' = source l"
  by (auto simp: advance_def split: if_splits)

function skip_whitespace :: "Lexer \<Rightarrow> Lexer option" where
  "skip_whitespace l =
     (if current_char l \<noteq> NUL
         \<and> (current_char l = CHR '' '' \<or> current_char l = CHR 0x09 \<or> current_char l = CHR 0x0D)
      then (case advance l of None \<Rightarrow> None | Some l' \<Rightarrow> skip_whitespace l')
      else Some l)"
  by pat_completeness auto
termination
  by (relation "measure remaining") (auto simp: advance_remaining)

function read_identifier_loop :: "Lexer \<Rightarrow> string \<Rightarrow> (string \<times> Lexer) option" where
  "read_identifier_loop l buffer =
     (if current_char l \<noteq> NUL \<and> (isalnum (current_char l) \<or> current_char l = CHR ''_'')
      then (case advance l of
              None \<Rightarrow> None
            | Some l' \<Rightarrow> read_identifier_loop l' (buffer @ [current_char l]))
      else Some (buffer, l))"
  by pat_completeness auto
termination
  by (relation "measure (\<lambda>(l, buffer). remaining l)") (auto simp: advance_remaining)

definition read_identifier :: "Lexer \<Rightarrow> (Token \<times> Lexer) option" where
  "read_identifier l =
     (case read_identifier_loop l [] of
        None \<Rightarrow> None
      | Some (lx, l') \<Rightarrow>
          Some (token_create (snd (token_is_keyword lx TOKEN_IDENTIFIER)) lx (l_line l) (l_column l),
                l'))"

function read_number_loop :: "Lexer \<Rightarrow> string \<Rightarrow> bool \<Rightarrow> (string \<times> bool \<times> Lexer) option" where
  "read_number_loop l buffer has_decimal =
     (if current_char l \<noteq> NUL then
        (if isdigit (current_char l) then
           (case advance l of
              None \<Rightarrow> None
            | Some l' \<Rightarrow> read_number_loop l' (buffer @ [current_char l]) has_decimal)
         else if current_char l = CHR ''.'' \<and> \<not> has_decimal then
           (case advance l of
              None \<Rightarrow> None
            | Some l' \<Rightarrow> read_number_loop l' (buffer @ [current_char l]) True)
         else Some (buffer, has_decimal, l))
      else Some (buffer, has_decimal, l))"
  by pat_completeness auto
termination
  by (relation "measure (\<lambda>(l, buffer, has_decimal). remaining l)") (auto simp: advance_remaining)

definition read_number :: "Lexer \<Rightarrow> (Token \<times> Lexer) option" where
  "read_number l =
     (case read_number_loop l [] False of
        None \<Rightarrow> None
      | Some (lx, has_decimal, l') \<Rightarrow>
          Some (token_create_with_literal
                  (if has_decimal then TOKEN_FLOAT_LITERAL else TOKEN_INTEGER_LITERAL)
                  lx (l_line l) (l_column l),
                l'))"

text \<open>The escape switch of \<open>read_string\<close>.\<close>

definition string_escape :: "char \<Rightarrow> char" where
  "string_escape c =
     (if c = CHR ''n'' then CHR 0x0A
      else if c = CHR ''t'' then CHR 0x09
      else if c = CHR ''r'' then CHR 0x0D
      else if c = backslash then backslash
      else if c = dquote then dquote
      else c)"

text \<open>
  The loop of \<open>read_string\<close>. After a backslash the escaped character is appended only if
  it is not the NUL, but the \<open>advance\<close> at the end of the loop body runs in either case.
\<close>

function read_string_loop :: "Lexer \<Rightarrow> string \<Rightarrow> (string \<times> Lexer) option" where
  "read_string_loop l buffer =
     (if current_char l \<noteq> NUL \<and> current_char l \<noteq> dquote then
        (if current_char l = backslash then
           (case advance l of
              None \<Rightarrow> None
            | Some l1 \<Rightarrow>
                (case advance l1 of
                   None \<Rightarrow> None
                 | Some l2 \<Rightarrow>
                     read_string_loop l2
                       (if current_char l1 \<noteq> NUL then buffer @ [string_escape (current_char l1)]
                        else buffer)))
         else
           (case advance l of
              None \<Rightarrow> None
            | Some l2 \<Rightarrow> read_string_loop l2 (buffer @ [current_char l])))
      else Some (buffer, l))"
  by pat_completeness auto
termination
proof (relation "measure (\<lambda>(l, buffer). remaining l)")
  show "wf (measure (\<lambda>(l, buffer). remaining l))" by simp
next
  fix l :: Lexer and buffer :: string and l1 l2
  assume "advance l = Some l1" and "advance l1 = Some l2"
  then have "remaining l2 < remaining l"
    using advance_remaining[of l l1] advance_remaining[of l1 l2] by simp
  then show "((l2, if current_char l1 \<noteq> NUL then buffer @ [string_escape (current_char l1)]
                   else buffer), l, buffer) \<in> measure (\<lambda>(l, buffer). remaining l)"
    by simp
next
  fix l :: Lexer and buffer :: string and l2
  assume "advance l = Some l2"
  then show "((l2, buffer @ [current_char l]), l, buffer) \<in> measure (\<lambda>(l, buffer). remaining l)"
    by (simp add: advance_remaining)
qed

definition read_string :: "Lexer \<Rightarrow> (Token \<times> Lexer) option" where
  "read_string l =
     (case advance l of
        None \<Rightarrow> None
      | Some l1 \<Rightarrow>
          (case read_string_loop l1 [] of
             None \<Rightarrow> None
           | Some (content, l2) \<Rightarrow>
               (case (if current_char l2 = dquote then advance l2
                      else Some (l2\<lparr>l_had_error := True,
                                    l_last_error :=
                                      Some (error_create ERROR_LEXICAL ''Unterminated string literal''
                                              (l_line l) (l_column l) None)\<rparr>)) of
                  None \<Rightarrow> None
                | Some l3 \<Rightarrow>
                    Some ((token_create_with_literal TOKEN_STRING_LITERAL
                             ([dquote] @ content @ [dquote]) (l_line l) (l_column l))
                            \<lparr>literal := StringLiteral content\<rparr>,
                          l3))))"

text \<open>The escape switch of \<open>read_char\<close>: every listed escape but n, t and r stands for itself.\<close>

definition char_escape :: "char \<Rightarrow> char" where
  "char_escape c =
     (if c = CHR ''n'' then CHR 0x0A
      else if c = CHR ''t'' then CHR 0x09
      else if c = CHR ''r'' then CHR 0x0D
      else c)"

definition unterminated_char :: "Lexer \<Rightarrow> Lexer \<Rightarrow> Token \<times> Lexer" where
  "unterminated_char start l =
     (token_create TOKEN_UNKNOWN [squote] (l_line start) (l_column start),
      l\<lparr>l_had_error := True,
        l_last_error := Some (error_create ERROR_LEXICAL ''Unterminated character literal''
                                (l_line start) (l_column start) None)\<rparr>)"

text \<open>
  \<open>read_char\<close>. The lexeme is the array \<open>{', content, ', NUL}\<close> read as a C string, hence
  the \<open>strdup_safe\<close>.
\<close>

definition read_char :: "Lexer \<Rightarrow> (Token \<times> Lexer) option" where
  "read_char l =
     (case advance l of
        None \<Rightarrow> None
      | Some l1 \<Rightarrow>
          if current_char l1 = NUL then Some (unterminated_char l l1)
          else
            (case (if current_char l1 = backslash then
                     (case advance l1 of
                        None \<Rightarrow> None
                      | Some l2 \<Rightarrow>
                          Some (if current_char l2 \<noteq> NUL then char_escape (current_char l2) else NUL,
                                l2))
                   else Some (current_char l1, l1)) of
               None \<Rightarrow> None
             | Some (content, l2) \<Rightarrow>
                 (case advance l2 of
                    None \<Rightarrow> None
                  | Some l3 \<Rightarrow>
                      if current_char l3 = squote then
                        (case advance l3 of
                           None \<Rightarrow> None
                         | Some l4 \<Rightarrow>
                             Some ((token_create_with_literal TOKEN_CHAR_LITERAL
                                      (strdup_safe [squote, content, squote]) (l_line l) (l_column l))
                                     \<lparr>literal := CharLiteral content\<rparr>,
                                   l4))
                      else Some (unterminated_char l l3))))"

text \<open>The inner switch of \<open>read_operator\<close> for single characters.\<close>

definition single_char_type :: "char \<Rightarrow> TokenType" where
  "single_char_type c =
     (if c = CHR ''*'' then TOKEN_MULTIPLY
      else if c = CHR ''/'' then TOKEN_DIVIDE
      else if c = CHR ''%'' then TOKEN_MODULO
      else if c = CHR ''('' then TOKEN_LEFT_PAREN
      else if c = CHR '')'' then TOKEN_RIGHT_PAREN
      else if c = CHR ''{'' then TOKEN_LEFT_BRACE
      else if c = CHR ''}'' then TOKEN_RIGHT_BRACE
      else if c = CHR ''['' then TOKEN_LEFT_BRACKET
      else if c = CHR '']'' then TOKEN_RIGHT_BRACKET
      else if c = CHR '';'' then TOKEN_SEMICOLON
      else if c = CHR '','' then TOKEN_COMMA
      else if c = CHR ''.'' then TOKEN_DOT
      else if c = CHR '':'' then TOKEN_COLON
      else if c = CHR ''?'' then TOKEN_QUESTION
      else if c = CHR 0x0A then TOKEN_NEWLINE
      else TOKEN_UNKNOWN)"

text \<open>One or two calls of \<open>advance\<close>, then the token at the start position.\<close>

definition advance_once :: "Lexer \<Rightarrow> TokenType \<Rightarrow> string \<Rightarrow> (Token \<times> Lexer) option" where
  "advance_once l ty lx =
     (case advance l of
        None \<Rightarrow> None
      | Some l1 \<Rightarrow> Some (token_create ty lx (l_line l) (l_column l), l1))"

definition advance_twice :: "Lexer \<Rightarrow> TokenType \<Rightarrow> string \<Rightarrow> (Token \<times> Lexer) option" where
  "advance_twice l ty lx =
     (case advance l of
        None \<Rightarrow> None
      | Some l1 \<Rightarrow>
          (case advance l1 of
             None \<Rightarrow> None
           | Some l2 \<Rightarrow> Some (token_create ty lx (l_line l) (l_column l), l2)))"

definition read_operator :: "Lexer \<Rightarrow> (Token \<times> Lexer) option" where
  "read_operator l =
     (case peek l of
        None \<Rightarrow> None
      | Some next \<Rightarrow>
          (let current = current_char l in
           if current = CHR ''='' then
             (if next = CHR ''='' then advance_twice l TOKEN_EQUAL ''==''
              else advance_once l TOKEN_ASSIGN ''='')
           else if current = CHR ''!'' then
             (if next = CHR ''='' then advance_twice l TOKEN_NOT_EQUAL ''!=''
              else advance_once l TOKEN_LOGICAL_NOT ''!'')
           else if current = CHR ''&'' then
             (if next = CHR ''&'' then advance_twice l TOKEN_LOGICAL_AND ''&&''
              else advance_once l TOKEN_BITWISE_AND ''&'')
           else if current = CHR ''|'' then
             (if next = CHR ''|'' then advance_twice l TOKEN_LOGICAL_OR ''||''
              else advance_once l TOKEN_BITWISE_OR ''|'')
           else if current = CHR ''^'' then advance_once l TOKEN_BITWISE_XOR ''^''
           else if current = CHR ''~'' then advance_once l TOKEN_BITWISE_NOT ''~''
           else if current = CHR ''+'' then
             (if next = CHR ''+'' then advance_twice l TOKEN_INCREMENT ''++''
              else advance_once l TOKEN_PLUS ''+'')
           else if current = CHR ''-'' then
             (if next = CHR ''-'' then advance_twice l TOKEN_DECREMENT ''--''
              else advance_once l TOKEN_MINUS ''-'')
           else if current = CHR ''<'' then
             (if next = CHR ''='' then advance_twice l TOKEN_LESS_EQUAL ''<=''
              else if next = CHR ''<'' then advance_twice l TOKEN_LEFT_SHIFT ''<<''
              else advance_once l TOKEN_LESS ''<'')
           else if current = CHR ''>'' then
             (if next = CHR ''='' then advance_twice l TOKEN_GREATER_EQUAL ''>=''
              else if next = CHR ''>'' then advance_twice l TOKEN_RIGHT_SHIFT ''>>''
              else advance_once l TOKEN_GREATER ''>'')
           else advance_once l (single_char_type current) (strdup_safe [current])))"

definition lexer_next_token :: "Lexer \<Rightarrow> (Token \<times> Lexer) option" where
  "lexer_next_token l =
     (if current_char l = NUL then Some (token_create TOKEN_EOF [] (l_line l) (l_column l), l)
      else
        (case skip_whitespace l of
           None \<Rightarrow> None
         | Some l1 \<Rightarrow>
             if current_char l1 = CHR 0x0A then advance_once l1 TOKEN_NEWLINE [CHR 0x0A]
             else if current_char l1 = NUL then
               Some (token_create TOKEN_EOF [] (l_line l1) (l_column l1), l1)
             else if isalpha (current_char l1) \<or> current_char l1 = CHR ''_'' then read_identifier l1
             else if isdigit (current_char l1) then read_number l1
             else if current_char l1 = dquote then read_string l1
             else if current_char l1 = squote then read_char l1
             else read_operator l1))"

definition lexer_peek_token :: "Lexer \<Rightarrow> (Token \<times> Lexer) option" where
  "lexer_peek_token l =
     (case lexer_next_token l of
        None \<Rightarrow> None
      | Some (token, l') \<Rightarrow>
          Some (token,
                l'\<lparr>position := position l, l_line := l_line l, l_column := l_column l,
                   current_char := current_char l\<rparr>))"

definition lexer_get_last_error :: "Lexer \<Rightarrow> Error option" where
  "lexer_get_last_error l = l_last_error l"

definition lexer_had_error :: "Lexer \<Rightarrow> bool" where
  "lexer_had_error l = l_had_error l"

definition lexer_clear_error :: "Lexer \<Rightarrow> Lexer" where
  "lexer_clear_error l = l\<lparr>l_had_error := False, l_last_error := None\<rparr>"

subsection \<open>Progress of the tokenizer\<close>

text \<open>
  Every token other than end-of-input consumes at least one character, and no call moves
  backwards. The parser's termination rests on this.
\<close>

declare skip_whitespace.simps [simp del] read_identifier_loop.simps [simp del]
  read_number_loop.simps [simp del] read_string_loop.simps [simp del]

lemma advance_le: "advance l = Some l' \<Longrightarrow> remaining l' \<le> remaining l"
  using advance_remaining[of l l'] by simp

lemma skip_whitespace_remaining:
  "skip_whitespace l = Some l' \<Longrightarrow> remaining l' \<le> remaining l"
proof (induction l rule: skip_whitespace.induct)
  case (1 l)
  show ?case
  proof (cases "current_char l \<noteq> NUL
         \<and> (current_char l = CHR '' '' \<or> current_char l = CHR 0x09 \<or> current_char l = CHR 0x0D)")
    case True
    with "1.prems" obtain l1 where a: "advance l = Some l1" and s: "skip_whitespace l1 = Some l'"
      by (subst (asm) skip_whitespace.simps) (auto split: option.splits)
    from "1.IH"[OF True a s] advance_le[OF a] show ?thesis by simp
  next
    case False
    with "1.prems" show ?thesis by (subst (asm) skip_whitespace.simps) auto
  qed
qed

lemma read_identifier_loop_remaining:
  "read_identifier_loop l b = Some (lx, l') \<Longrightarrow> remaining l' \<le> remaining l"
proof (induction l b rule: read_identifier_loop.induct)
  case (1 l b)
  show ?case
  proof (cases "current_char l \<noteq> NUL \<and> (isalnum (current_char l) \<or> current_char l = CHR ''_'')")
    case True
    with "1.prems" obtain l1 where a: "advance l = Some l1"
      and s: "read_identifier_loop l1 (b @ [current_char l]) = Some (lx, l')"
      by (subst (asm) read_identifier_loop.simps) (auto split: option.splits)
    from "1.IH"[OF True a s] advance_le[OF a] show ?thesis by simp
  next
    case False
    with "1.prems" show ?thesis by (subst (asm) read_identifier_loop.simps) auto
  qed
qed

lemma read_identifier_loop_strict:
  assumes "read_identifier_loop l b = Some (lx, l')"
    and "current_char l \<noteq> NUL" and "isalnum (current_char l) \<or> current_char l = CHR ''_''"
  shows "remaining l' < remaining l"
proof -
  from assms obtain l1 where a: "advance l = Some l1"
    and s: "read_identifier_loop l1 (b @ [current_char l]) = Some (lx, l')"
    by (subst (asm) read_identifier_loop.simps) (auto split: option.splits)
  from read_identifier_loop_remaining[OF s] advance_remaining[OF a] show ?thesis by simp
qed

lemma read_number_loop_remaining:
  "read_number_loop l b d = Some (lx, d', l') \<Longrightarrow> remaining l' \<le> remaining l"
proof (induction l b d rule: read_number_loop.induct)
  case (1 l b d)
  show ?case
  proof (cases "current_char l \<noteq> NUL \<and> isdigit (current_char l)")
    case True
    with "1.prems" obtain l1 where a: "advance l = Some l1"
      and s: "read_number_loop l1 (b @ [current_char l]) d = Some (lx, d', l')"
      by (subst (asm) read_number_loop.simps) (auto split: option.splits)
    from "1.IH"(1)[OF _ _ a s] True advance_le[OF a] show ?thesis by simp
  next
    case False
    show ?thesis
    proof (cases "current_char l \<noteq> NUL \<and> current_char l = CHR ''.'' \<and> \<not> d")
      case True
      with False "1.prems" obtain l1 where a: "advance l = Some l1"
        and s: "read_number_loop l1 (b @ [current_char l]) True = Some (lx, d', l')"
        by (subst (asm) read_number_loop.simps) (auto split: option.splits)
      from "1.IH"(2)[OF _ _ _ a s] True False advance_le[OF a] show ?thesis
        by (auto simp: NUL_def isdigit_def)
    next
      case F2: False
      with False "1.prems" show ?thesis by (subst (asm) read_number_loop.simps) (auto split: if_splits)
    qed
  qed
qed

lemma read_number_loop_strict:
  assumes "read_number_loop l b d = Some (lx, d', l')"
    and "current_char l \<noteq> NUL" and "isdigit (current_char l)"
  shows "remaining l' < remaining l"
proof -
  from assms obtain l1 where a: "advance l = Some l1"
    and s: "read_number_loop l1 (b @ [current_char l]) d = Some (lx, d', l')"
    by (subst (asm) read_number_loop.simps) (auto split: option.splits)
  from read_number_loop_remaining[OF s] advance_remaining[OF a] show ?thesis by simp
qed

lemma read_string_loop_remaining:
  "read_string_loop l b = Some (c, l') \<Longrightarrow> remaining l' \<le> remaining l"
proof (induction l b rule: read_string_loop.induct)
  case (1 l b)
  show ?case
  proof (cases "current_char l \<noteq> NUL \<and> current_char l \<noteq> dquote")
    case False
    with "1.prems" show ?thesis by (subst (asm) read_string_loop.simps) auto
  next
    case True
    show ?thesis
    proof (cases "current_char l = backslash")
      case bs: True
      with True "1.prems" obtain l1 l2 where a1: "advance l = Some l1" and a2: "advance l1 = Some l2"
        and s: "read_string_loop l2
                  (if current_char l1 \<noteq> NUL then b @ [string_escape (current_char l1)] else b)
                = Some (c, l')"
        by (subst (asm) read_string_loop.simps) (auto split: option.splits)
      from "1.IH"(1)[OF True bs a1 a2 s] advance_le[OF a1] advance_le[OF a2] show ?thesis by simp
    next
      case nbs: False
      with True "1.prems" obtain l2 where a: "advance l = Some l2"
        and s: "read_string_loop l2 (b @ [current_char l]) = Some (c, l')"
        by (subst (asm) read_string_loop.simps) (auto split: option.splits)
      from "1.IH"(2)[OF True nbs a s] advance_le[OF a] show ?thesis by simp
    qed
  qed
qed

lemma read_identifier_remaining:
  "read_identifier l = Some (t, l') \<Longrightarrow> current_char l \<noteq> NUL
   \<Longrightarrow> isalpha (current_char l) \<or> current_char l = CHR ''_'' \<Longrightarrow> remaining l' < remaining l"
  using read_identifier_loop_strict[of l "[]"]
  by (auto simp: read_identifier_def isalnum_def split: option.splits)

lemma read_number_remaining:
  "read_number l = Some (t, l') \<Longrightarrow> current_char l \<noteq> NUL \<Longrightarrow> isdigit (current_char l)
   \<Longrightarrow> remaining l' < remaining l"
  using read_number_loop_strict[of l "[]" False]
  by (auto simp: read_number_def split: option.splits)

lemma remaining_error_update [simp]:
  "remaining (l\<lparr>l_had_error := e, l_last_error := x\<rparr>) = remaining l"
  by (simp add: remaining_def)

lemma read_string_remaining:
  assumes "read_string l = Some (t, l')"
  shows "remaining l' < remaining l"
proof -
  from assms obtain l1 c l2 where a: "advance l = Some l1"
    and s: "read_string_loop l1 [] = Some (c, l2)"
    and e: "(if current_char l2 = dquote then advance l2
             else Some (l2\<lparr>l_had_error := True,
                           l_last_error := Some (error_create ERROR_LEXICAL ''Unterminated string literal''
                                              (l_line l) (l_column l) None)\<rparr>)) = Some l'"
    by (auto simp: read_string_def split: option.splits)
  from e have "remaining l' \<le> remaining l2"
    by (auto split: if_splits dest: advance_le)
  with read_string_loop_remaining[OF s] advance_remaining[OF a] show ?thesis by simp
qed

lemma read_char_remaining:
  assumes "read_char l = Some (t, l')"
  shows "remaining l' < remaining l"
  using assms
  by (auto simp: read_char_def unterminated_char_def split: option.splits if_splits
           dest!: advance_remaining)

lemma advance_once_remaining: "advance_once l ty lx = Some (t, l') \<Longrightarrow> remaining l' < remaining l"
  by (auto simp: advance_once_def split: option.splits dest!: advance_remaining)

lemma advance_twice_remaining: "advance_twice l ty lx = Some (t, l') \<Longrightarrow> remaining l' < remaining l"
  by (auto simp: advance_twice_def split: option.splits dest!: advance_remaining)

lemma read_operator_remaining:
  assumes "read_operator l = Some (t, l')"
  shows "remaining l' < remaining l"
  using assms
  by (auto simp: read_operator_def Let_def split: option.splits if_splits
           dest: advance_once_remaining advance_twice_remaining)

lemma lexer_next_token_remaining:
  assumes "lexer_next_token l = Some (t, l')"
  shows "remaining l' \<le> remaining l \<and> (t_type t \<noteq> TOKEN_EOF \<longrightarrow> remaining l' < remaining l)"
proof (cases "current_char l = NUL")
  case True
  with assms show ?thesis by (auto simp: lexer_next_token_def token_create_def)
next
  case False
  with assms obtain l1 where s: "skip_whitespace l = Some l1"
    by (auto simp: lexer_next_token_def split: option.splits)
  note le = skip_whitespace_remaining[OF s]
  from assms False s have
    r: "(if current_char l1 = CHR 0x0A then advance_once l1 TOKEN_NEWLINE [CHR 0x0A]
             else if current_char l1 = NUL then
               Some (token_create TOKEN_EOF [] (l_line l1) (l_column l1), l1)
             else if isalpha (current_char l1) \<or> current_char l1 = CHR ''_'' then read_identifier l1
             else if isdigit (current_char l1) then read_number l1
             else if current_char l1 = dquote then read_string l1
             else if current_char l1 = squote then read_char l1
             else read_operator l1) = Some (t, l')"
    by (simp add: lexer_next_token_def)
  show ?thesis
  proof (cases "current_char l1 = NUL \<and> current_char l1 \<noteq> CHR 0x0A")
    case True
    with r le show ?thesis by (auto simp: token_create_def)
  next
    case F: False
    have "remaining l' < remaining l1"
      using r F
      by (auto split: if_splits
               dest: advance_once_remaining read_identifier_remaining read_number_remaining
                     read_string_remaining read_char_remaining read_operator_remaining)
    with le show ?thesis by simp
  qed
qed

subsection \<open>Tokenizing a whole text\<close>



section \<open>Abstract syntax tree (src/parser/parser.h, parser.c)\<close>

datatype NodeType =
    NODE_PROGRAM | NODE_FUNCTION_DECLARATION | NODE_VARIABLE_DECLARATION
  | NODE_PARAMETER_LIST | NODE_BLOCK_STATEMENT | NODE_EXPRESSION_STATEMENT
  | NODE_RETURN_STATEMENT | NODE_IF_STATEMENT | NODE_WHILE_STATEMENT
  | NODE_ASSIGNMENT_EXPRESSION | NODE_BINARY_EXPRESSION | NODE_UNARY_EXPRESSION
  | NODE_CALL_EXPRESSION | NODE_IDENTIFIER | NODE_LITERAL | NODE_ERROR

datatype LiteralValue =
    IntValue "32 word"
  | FloatValue string
  | StringValue "string option"

text \<open>
  A node is the C struct: the tag, the originating token, the \<open>data\<close> union and the
  child list that \<open>ast_node_add_child\<close> threads through \<open>first_child\<close> and
  \<open>next_sibling\<close>. \<open>NoData\<close> is the zero-filled union left by \<open>ast_node_create\<close>; a
  pointer member read from it is NULL. Pointers that may be NULL are options.
\<close>

datatype ASTNode =
  ASTNode (node_type: NodeType) (n_token: "Token option") (n_data: NodeData)
          (n_children: "ASTNode list")
and NodeData =
    NoData
  | BinaryData "ASTNode option" "ASTNode option" "string option"
  | UnaryData "ASTNode option" "string option"
  | DeclarationData "string option" "ASTNode option" "string option" bool
  | LiteralData LiteralValue
  | IdentifierData "string option"

definition ast_node_create :: "NodeType \<Rightarrow> Token option \<Rightarrow> ASTNode" where
  "ast_node_create ty tok = ASTNode ty tok NoData []"

definition ast_node_create_binary ::
  "Token option \<Rightarrow> ASTNode option \<Rightarrow> ASTNode option \<Rightarrow> string option \<Rightarrow> ASTNode" where
  "ast_node_create_binary tok l r op = ASTNode NODE_BINARY_EXPRESSION tok (BinaryData l r op) []"

definition ast_node_create_unary ::
  "Token option \<Rightarrow> ASTNode option \<Rightarrow> string option \<Rightarrow> ASTNode" where
  "ast_node_create_unary tok operand op = ASTNode NODE_UNARY_EXPRESSION tok (UnaryData operand op) []"

definition ast_node_create_literal_int :: "Token option \<Rightarrow> 32 word \<Rightarrow> ASTNode" where
  "ast_node_create_literal_int tok v = ASTNode NODE_LITERAL tok (LiteralData (IntValue v)) []"

definition ast_node_create_literal_float :: "Token option \<Rightarrow> string \<Rightarrow> ASTNode" where
  "ast_node_create_literal_float tok v = ASTNode NODE_LITERAL tok (LiteralData (FloatValue v)) []"

definition ast_node_create_literal_string :: "Token option \<Rightarrow> string option \<Rightarrow> ASTNode" where
  "ast_node_create_literal_string tok v = ASTNode NODE_LITERAL tok (LiteralData (StringValue v)) []"

definition ast_node_create_identifier :: "Token option \<Rightarrow> string option \<Rightarrow> ASTNode" where
  "ast_node_create_identifier tok nm = ASTNode NODE_IDENTIFIER tok (IdentifierData nm) []"

definition ast_node_create_variable_declaration ::
  "Token option \<Rightarrow> string option \<Rightarrow> string option \<Rightarrow> ASTNode option \<Rightarrow> ASTNode" where
  "ast_node_create_variable_declaration tok ty_name var_name init =
     ASTNode NODE_VARIABLE_DECLARATION tok (DeclarationData var_name init ty_name True) []"

definition ast_node_create_program :: ASTNode where
  "ast_node_create_program = ast_node_create NODE_PROGRAM None"

fun ast_node_add_child :: "ASTNode \<Rightarrow> ASTNode \<Rightarrow> ASTNode" where
  "ast_node_add_child (ASTNode ty tok d ch) child = ASTNode ty tok d (ch @ [child])"

section \<open>Parser (src/parser/parser.h, parser.c)\<close>

text \<open>
  The parser holds a pointer to its lexer; the model keeps the lexer's state inside the
  parser's. A function has no result (\<open>None\<close>) where the tokenizer has none.
\<close>

record Parser =
  lexer :: Lexer
  current_token :: "Token option"
  peek_token :: "Token option"
  p_had_error :: bool
  p_last_error :: "Error option"

definition parser_create :: "Lexer \<Rightarrow> Parser" where
  "parser_create lx =
     \<lparr>lexer = lx, current_token = None, peek_token = None, p_had_error = False,
      p_last_error = None\<rparr>"

definition parser_get_last_error :: "Parser \<Rightarrow> Error option" where
  "parser_get_last_error parser = p_last_error parser"

definition parser_had_error :: "Parser \<Rightarrow> bool" where
  "parser_had_error parser = p_had_error parser"

definition parser_clear_error :: "Parser \<Rightarrow> Parser" where
  "parser_clear_error parser = parser\<lparr>p_had_error := False, p_last_error := None\<rparr>"

definition parser_is_binary_operator :: "TokenType \<Rightarrow> bool" where
  "parser_is_binary_operator ty =
     (ty = TOKEN_PLUS \<or> ty = TOKEN_MINUS \<or> ty = TOKEN_MULTIPLY \<or> ty = TOKEN_DIVIDE
      \<or> ty = TOKEN_MODULO \<or> ty = TOKEN_EQUAL \<or> ty = TOKEN_NOT_EQUAL \<or> ty = TOKEN_LESS
      \<or> ty = TOKEN_LESS_EQUAL \<or> ty = TOKEN_GREATER \<or> ty = TOKEN_GREATER_EQUAL
      \<or> ty = TOKEN_LOGICAL_AND \<or> ty = TOKEN_LOGICAL_OR \<or> ty = TOKEN_BITWISE_AND
      \<or> ty = TOKEN_BITWISE_OR \<or> ty = TOKEN_BITWISE_XOR \<or> ty = TOKEN_LEFT_SHIFT
      \<or> ty = TOKEN_RIGHT_SHIFT)"

definition parser_get_precedence :: "TokenType \<Rightarrow> int" where
  "parser_get_precedence ty =
     (if ty = TOKEN_ASSIGN then 1
      else if ty = TOKEN_LOGICAL_OR then 2
      else if ty = TOKEN_LOGICAL_AND then 3
      else if ty = TOKEN_EQUAL \<or> ty = TOKEN_NOT_EQUAL then 4
      else if ty = TOKEN_LESS \<or> ty = TOKEN_LESS_EQUAL \<or> ty = TOKEN_GREATER
              \<or> ty = TOKEN_GREATER_EQUAL then 5
      else if ty = TOKEN_PLUS \<or> ty = TOKEN_MINUS then 6
      else if ty = TOKEN_MULTIPLY \<or> ty = TOKEN_DIVIDE \<or> ty = TOKEN_MODULO then 7
      else if ty = TOKEN_LEFT_SHIFT \<or> ty = TOKEN_RIGHT_SHIFT then 8
      else if ty = TOKEN_BITWISE_AND then 9
      else if ty = TOKEN_BITWISE_XOR then 10
      else if ty = TOKEN_BITWISE_OR then 11
      else 0)"

text \<open>\<open>tok != NULL && tok->type == ty\<close>.\<close>

definition token_has_type :: "Token option \<Rightarrow> TokenType \<Rightarrow> bool" where
  "token_has_type tok ty = (case tok of None \<Rightarrow> False | Some t \<Rightarrow> t_type t = ty)"

text \<open>\<open>parser->current_token = lexer_next_token(parser->lexer)\<close>.\<close>

definition fetch_token :: "Parser \<Rightarrow> Parser option" where
  "fetch_token parser =
     (case lexer_next_token (lexer parser) of
        None \<Rightarrow> None
      | Some (token, lx) \<Rightarrow> Some (parser\<lparr>lexer := lx, current_token := Some token\<rparr>))"

text \<open>
  The members of a token's literal union as the parser reads them. A zero-filled union
  reads as 0 or NULL. A member read from a payload of another kind reinterprets bytes; the
  tokenizer never pairs a token type with a foreign payload, the model returns 0, the empty
  text or NULL there.
\<close>

definition token_int_value :: "Token \<Rightarrow> 32 word" where
  "token_int_value token = (case literal token of IntLiteral v \<Rightarrow> v | _ \<Rightarrow> 0)"

definition token_float_value :: "Token \<Rightarrow> string" where
  "token_float_value token = (case literal token of FloatLiteral v \<Rightarrow> v | _ \<Rightarrow> [])"

definition token_string_value :: "Token \<Rightarrow> string option" where
  "token_string_value token = (case literal token of StringLiteral v \<Rightarrow> Some v | _ \<Rightarrow> None)"

text \<open>
  The \<open>switch\<close> of \<open>parser_parse_primary\<close> for a token that is not a left parenthesis:
  the node of a literal, identifier or boolean token, \<open>None\<close> for the \<open>default\<close> case.
\<close>

definition primary_leaf :: "Token \<Rightarrow> ASTNode option" where
  "primary_leaf token =
     (if t_type token = TOKEN_INTEGER_LITERAL then
        Some (ast_node_create_literal_int (Some token) (token_int_value token))
      else if t_type token = TOKEN_FLOAT_LITERAL then
        Some (ast_node_create_literal_float (Some token) (token_float_value token))
      else if t_type token = TOKEN_STRING_LITERAL then
        Some (ast_node_create_literal_string (Some token) (token_string_value token))
      else if t_type token = TOKEN_IDENTIFIER then
        Some (ast_node_create_identifier (Some token) (Some (lexeme token)))
      else if t_type token = TOKEN_TRUE then Some (ast_node_create_literal_int (Some token) 1)
      else if t_type token = TOKEN_FALSE then Some (ast_node_create_literal_int (Some token) 0)
      else None)"

definition syntax_error :: "Parser \<Rightarrow> string \<Rightarrow> Token option \<Rightarrow> Parser" where
  "syntax_error parser msg token =
     parser\<lparr>p_had_error := True,
            p_last_error :=
              Some (error_create ERROR_SYNTAX msg
                      (case token of None \<Rightarrow> 0 | Some t \<Rightarrow> t_line t)
                      (case token of None \<Rightarrow> 0 | Some t \<Rightarrow> t_column t)
                      (map_option lexeme token))\<rparr>"

text \<open>What is left to parse: the input the lexer has not read, and the token in hand.\<close>

definition parser_measure :: "Parser \<Rightarrow> nat" where
  "parser_measure parser =
     remaining (lexer parser)
     + (case current_token parser of
          None \<Rightarrow> 0
        | Some t \<Rightarrow> if t_type t = TOKEN_EOF then 0 else 1)"

lemma fetch_token_measure:
  assumes "fetch_token parser = Some p1" and "current_token parser = Some t"
    and "t_type t \<noteq> TOKEN_EOF"
  shows "parser_measure p1 < parser_measure parser"
proof -
  from assms(1) obtain tok lx where n: "lexer_next_token (lexer parser) = Some (tok, lx)"
    and p1: "p1 = parser\<lparr>lexer := lx, current_token := Some tok\<rparr>"
    by (auto simp: fetch_token_def split: option.splits)
  from lexer_next_token_remaining[OF n] show ?thesis
    using assms(2,3) p1 by (auto simp: parser_measure_def)
qed

text \<open>
  The expression parser. \<open>parser_binary_loop\<close> is the \<open>while (true)\<close> loop of
  \<open>parser_parse_expression_precedence\<close>, with \<open>left\<close> as its loop variable. Nodes are
  never NULL here: \<open>ast_node_create\<close> returns NULL only when \<open>malloc\<close> fails, which is
  not modelled.
\<close>

function parser_parse_expression :: "Parser \<Rightarrow> (ASTNode \<times> Parser) option"
  and parser_parse_expression_precedence :: "Parser \<Rightarrow> int \<Rightarrow> (ASTNode \<times> Parser) option"
  and parser_binary_loop :: "Parser \<Rightarrow> ASTNode \<Rightarrow> int \<Rightarrow> (ASTNode \<times> Parser) option"
  and parser_parse_primary :: "Parser \<Rightarrow> (ASTNode \<times> Parser) option"
where
  "parser_parse_expression parser =
     (if current_token parser = None then Some (ast_node_create NODE_ERROR None, parser)
      else parser_parse_expression_precedence parser 1)"
| "parser_parse_expression_precedence parser precedence =
     (if current_token parser = None then Some (ast_node_create NODE_ERROR None, parser)
      else
        (case parser_parse_primary parser of
           None \<Rightarrow> None
         | Some (left, p1) \<Rightarrow>
             if node_type left = NODE_ERROR then Some (left, p1)
             else parser_binary_loop p1 left precedence))"
| "parser_binary_loop parser left precedence =
     (case current_token parser of
        None \<Rightarrow> Some (left, parser)
      | Some token \<Rightarrow>
          if \<not> parser_is_binary_operator (t_type token) then Some (left, parser)
          else if parser_get_precedence (t_type token) < precedence then Some (left, parser)
          else
            (case fetch_token parser of
               None \<Rightarrow> None
             | Some p1 \<Rightarrow>
                 (case parser_parse_expression_precedence p1
                         (parser_get_precedence (t_type token) + 1) of
                    None \<Rightarrow> None
                  | Some (right, p2) \<Rightarrow>
                      if node_type right = NODE_ERROR then Some (right, p2)
                      else parser_binary_loop p2
                             (ast_node_create_binary (Some token) (Some left) (Some right)
                                (Some (lexeme token)))
                             precedence)))"
| "parser_parse_primary parser =
     (case current_token parser of
        None \<Rightarrow> Some (ast_node_create NODE_ERROR None, parser)
      | Some token \<Rightarrow>
          if t_type token = TOKEN_LEFT_PAREN then
            (case fetch_token parser of
               None \<Rightarrow> None
             | Some p1 \<Rightarrow>
                 (case parser_parse_expression p1 of
                    None \<Rightarrow> None
                  | Some (expr, p2) \<Rightarrow>
                      if node_type expr = NODE_ERROR then Some (expr, p2)
                      else if \<not> token_has_type (current_token p2) TOKEN_RIGHT_PAREN then
                        Some (ast_node_create NODE_ERROR (current_token p2),
                              syntax_error p2 ''Expected closing parenthesis'' (current_token p2))
                      else
                        (case fetch_token p2 of
                           None \<Rightarrow> None
                         | Some p3 \<Rightarrow> Some (expr, p3))))
          else
            (case primary_leaf token of
               Some node \<Rightarrow>
                 (case fetch_token parser of None \<Rightarrow> None | Some p1 \<Rightarrow> Some (node, p1))
             | None \<Rightarrow>
                 Some (ast_node_create NODE_ERROR (Some token),
                       syntax_error parser ''Unexpected token in expression'' (Some token))))"
  by pat_completeness auto


lemma binary_operator_not_eof: "parser_is_binary_operator ty \<Longrightarrow> ty \<noteq> TOKEN_EOF"
  by (auto simp: parser_is_binary_operator_def)

lemma primary_leaf_not_eof: "primary_leaf token = Some node \<Longrightarrow> t_type token \<noteq> TOKEN_EOF"
  by (auto simp: primary_leaf_def split: if_splits)

lemma syntax_error_measure [simp]:
  "parser_measure (syntax_error parser msg token) = parser_measure parser"
  by (simp add: syntax_error_def parser_measure_def)

text \<open>
  Before termination is known: on its domain, no parsing function returns a parser with
  more left to parse than it was given.
\<close>

lemma parser_measure_partial:
  "parser_parse_expression_parser_parse_expression_precedence_parser_binary_loop_parser_parse_primary_dom
     (Inl (Inl a))
   \<Longrightarrow> \<forall>n p'. parser_parse_expression a = Some (n, p') \<longrightarrow> parser_measure p' \<le> parser_measure a"
  "parser_parse_expression_parser_parse_expression_precedence_parser_binary_loop_parser_parse_primary_dom
     (Inl (Inr (b, prec)))
   \<Longrightarrow> \<forall>n p'. parser_parse_expression_precedence b prec = Some (n, p')
          \<longrightarrow> parser_measure p' \<le> parser_measure b"
  "parser_parse_expression_parser_parse_expression_precedence_parser_binary_loop_parser_parse_primary_dom
     (Inr (Inl (c, left, prec2)))
   \<Longrightarrow> \<forall>n p'. parser_binary_loop c left prec2 = Some (n, p')
          \<longrightarrow> parser_measure p' \<le> parser_measure c"
  "parser_parse_expression_parser_parse_expression_precedence_parser_binary_loop_parser_parse_primary_dom
     (Inr (Inr d))
   \<Longrightarrow> \<forall>n p'. parser_parse_primary d = Some (n, p') \<longrightarrow> parser_measure p' \<le> parser_measure d"
proof (induct rule:
    parser_parse_expression_parser_parse_expression_precedence_parser_binary_loop_parser_parse_primary.pinduct)
  case (1 parser)
  show ?case
  proof (intro allI impI)
    fix n p'
    assume r: "parser_parse_expression parser = Some (n, p')"
    show "parser_measure p' \<le> parser_measure parser"
    proof (cases "current_token parser = None")
      case True
      with r "1.hyps"(1) show ?thesis by (simp add: parser_parse_expression.psimps)
    next
      case False
      with r "1.hyps"(1) have "parser_parse_expression_precedence parser 1 = Some (n, p')"
        by (simp add: parser_parse_expression.psimps)
      with "1.hyps"(2)[OF False] show ?thesis by blast
    qed
  qed
next
  case (2 parser precedence)
  show ?case
  proof (intro allI impI)
    fix n p'
    assume r: "parser_parse_expression_precedence parser precedence = Some (n, p')"
    show "parser_measure p' \<le> parser_measure parser"
    proof (cases "current_token parser = None")
      case True
      with r "2.hyps"(1) show ?thesis by (simp add: parser_parse_expression_precedence.psimps)
    next
      case False
      with r "2.hyps"(1) obtain left p1 where pr: "parser_parse_primary parser = Some (left, p1)"
        and rest: "(if node_type left = NODE_ERROR then Some (left, p1)
                    else parser_binary_loop p1 left precedence) = Some (n, p')"
        by (auto simp: parser_parse_expression_precedence.psimps split: option.splits)
      from "2.hyps"(2)[OF False] pr have m1: "parser_measure p1 \<le> parser_measure parser" by blast
      show ?thesis
      proof (cases "node_type left = NODE_ERROR")
        case True
        with rest m1 show ?thesis by simp
      next
        case F: False
        with rest have "parser_binary_loop p1 left precedence = Some (n, p')" by simp
        with "2.hyps"(3)[OF False pr refl F] have "parser_measure p' \<le> parser_measure p1" by blast
        with m1 show ?thesis by simp
      qed
    qed
  qed
next
  case (3 parser left precedence)
  show ?case
  proof (intro allI impI)
    fix n p'
    assume r: "parser_binary_loop parser left precedence = Some (n, p')"
    show "parser_measure p' \<le> parser_measure parser"
    proof (cases "current_token parser")
      case None
      with r "3.hyps"(1) show ?thesis by (simp add: parser_binary_loop.psimps)
    next
      case (Some token)
      show ?thesis
      proof (cases "\<not> parser_is_binary_operator (t_type token)
                    \<or> parser_get_precedence (t_type token) < precedence")
        case True
        with r "3.hyps"(1) Some show ?thesis
          by (auto simp: parser_binary_loop.psimps split: if_splits)
      next
        case False
        then have b: "\<not> \<not> parser_is_binary_operator (t_type token)"
          and g: "\<not> parser_get_precedence (t_type token) < precedence" by auto
        from r "3.hyps"(1) Some False obtain p1 right p2 where
          f: "fetch_token parser = Some p1"
          and e: "parser_parse_expression_precedence p1 (parser_get_precedence (t_type token) + 1)
                  = Some (right, p2)"
          and rest: "(if node_type right = NODE_ERROR then Some (right, p2)
                      else parser_binary_loop p2
                             (ast_node_create_binary (Some token) (Some left) (Some right)
                                (Some (lexeme token))) precedence) = Some (n, p')"
          by (auto simp: parser_binary_loop.psimps split: option.splits)
        from b have "t_type token \<noteq> TOKEN_EOF" by (auto dest: binary_operator_not_eof)
        from fetch_token_measure[OF f Some this]
        have m1: "parser_measure p1 < parser_measure parser" .
        from "3.hyps"(2)[OF Some b g f] e have m2: "parser_measure p2 \<le> parser_measure p1" by blast
        show ?thesis
        proof (cases "node_type right = NODE_ERROR")
          case True
          with rest m1 m2 show ?thesis by simp
        next
          case F: False
          with rest have "parser_binary_loop p2
                             (ast_node_create_binary (Some token) (Some left) (Some right)
                                (Some (lexeme token))) precedence = Some (n, p')" by simp
          with "3.hyps"(3)[OF Some b g f e refl F]
          have "parser_measure p' \<le> parser_measure p2" by blast
          with m1 m2 show ?thesis by simp
        qed
      qed
    qed
  qed
next
  case (4 parser)
  show ?case
  proof (intro allI impI)
    fix n p'
    assume r: "parser_parse_primary parser = Some (n, p')"
    show "parser_measure p' \<le> parser_measure parser"
    proof (cases "current_token parser")
      case None
      with r "4.hyps"(1) show ?thesis by (simp add: parser_parse_primary.psimps)
    next
      case (Some token)
      show ?thesis
      proof (cases "t_type token = TOKEN_LEFT_PAREN")
        case True
        from r "4.hyps"(1) Some True obtain p1 expr p2 where
          f: "fetch_token parser = Some p1"
          and e: "parser_parse_expression p1 = Some (expr, p2)"
          and rest: "(if node_type expr = NODE_ERROR then Some (expr, p2)
                      else if \<not> token_has_type (current_token p2) TOKEN_RIGHT_PAREN then
                        Some (ast_node_create NODE_ERROR (current_token p2),
                              syntax_error p2 ''Expected closing parenthesis'' (current_token p2))
                      else
                        (case fetch_token p2 of
                           None \<Rightarrow> None
                         | Some p3 \<Rightarrow> Some (expr, p3))) = Some (n, p')"
          by (auto simp: parser_parse_primary.psimps split: option.splits)
        from True have "t_type token \<noteq> TOKEN_EOF" by simp
        from fetch_token_measure[OF f Some this]
        have m1: "parser_measure p1 < parser_measure parser" .
        from "4.hyps"(2)[OF Some True f] e have m2: "parser_measure p2 \<le> parser_measure p1" by blast
        have "parser_measure p' \<le> parser_measure p2"
        proof (cases "node_type expr = NODE_ERROR
                      \<or> \<not> token_has_type (current_token p2) TOKEN_RIGHT_PAREN")
          case True
          with rest show ?thesis by (auto split: if_splits)
        next
          case False
          then obtain ct where ct: "current_token p2 = Some ct" and "t_type ct = TOKEN_RIGHT_PAREN"
            by (auto simp: token_has_type_def split: option.splits)
          then have ne: "t_type ct \<noteq> TOKEN_EOF" by simp
          from rest False obtain p3 where f3: "fetch_token p2 = Some p3" and "p' = p3"
            by (auto split: option.splits)
          with fetch_token_measure[OF f3 ct ne] show ?thesis by simp
        qed
        with m1 m2 show ?thesis by simp
      next
        case False
        show ?thesis
        proof (cases "primary_leaf token")
          case None
          with r "4.hyps"(1) Some False show ?thesis by (auto simp: parser_parse_primary.psimps)
        next
          case (Some node)
          with r "4.hyps"(1) \<open>current_token parser = Some token\<close> False
          have f: "fetch_token parser = Some p'"
            by (auto simp: parser_parse_primary.psimps split: option.splits)
          from fetch_token_measure[OF f \<open>current_token parser = Some token\<close>
              primary_leaf_not_eof[OF Some]]
          show ?thesis by simp
        qed
      qed
    qed
  qed
qed

termination parser_parse_expression
proof (relation "measures [\<lambda>x. case x of Inl (Inl p) \<Rightarrow> parser_measure p
                                      | Inl (Inr (p, prec)) \<Rightarrow> parser_measure p
                                      | Inr (Inl (p, l, prec)) \<Rightarrow> parser_measure p
                                      | Inr (Inr p) \<Rightarrow> parser_measure p,
                             \<lambda>x. case x of Inl (Inl p) \<Rightarrow> 2
                                      | Inl (Inr (p, prec)) \<Rightarrow> 1
                                      | Inr (Inl (p, l, prec)) \<Rightarrow> 0
                                      | Inr (Inr p) \<Rightarrow> 0]", goal_cases)
  case 1
  then show ?case by simp
next
  case (2 parser)
  then show ?case by simp
next
  case (3 parser precedence)
  then show ?case by simp
next
  case (4 parser precedence x2 x y)
  from parser_measure_partial(4)[OF 4(5)] 4(2,3)
  have "parser_measure y \<le> parser_measure parser" by auto
  then show ?case by auto
next
  case (5 parser left precedence x2 x2a)
  from 5(2) have "t_type x2 \<noteq> TOKEN_EOF" by (auto dest: binary_operator_not_eof)
  from fetch_token_measure[OF 5(4) 5(1) this] show ?case by simp
next
  case (6 parser left precedence x2 x2a x2b x y)
  from 6(2) have "t_type x2 \<noteq> TOKEN_EOF" by (auto dest: binary_operator_not_eof)
  from fetch_token_measure[OF 6(4) 6(1) this]
  have m1: "parser_measure x2a < parser_measure parser" .
  from parser_measure_partial(2)[OF 6(8)] 6(5,6)
  have "parser_measure y \<le> parser_measure x2a" by auto
  with m1 show ?case by simp
next
  case (7 parser x2 x2a)
  from 7(2) have "t_type x2 \<noteq> TOKEN_EOF" by simp
  from fetch_token_measure[OF 7(3) 7(1) this] show ?case by simp
qed

declare parser_parse_expression.simps [simp del] parser_parse_expression_precedence.simps [simp del]
  parser_binary_loop.simps [simp del] parser_parse_primary.simps [simp del]

definition parser_parse :: "Parser \<Rightarrow> (ASTNode \<times> Parser) option" where
  "parser_parse parser =
     (case (if current_token parser = None then fetch_token parser else Some parser) of
        None \<Rightarrow> None
      | Some p1 \<Rightarrow>
          if current_token p1 = None \<or> token_has_type (current_token p1) TOKEN_EOF then
            Some (ast_node_create NODE_ERROR None, p1)
          else parser_parse_expression p1)"

definition parser_parse_program :: "Parser \<Rightarrow> ASTNode" where
  "parser_parse_program parser = ast_node_create NODE_PROGRAM None"

subsection \<open>The call stack of the parser\<close>








section \<open>Symbol tables and the semantic analyzer (src/semantic/semantic.h, semantic.c)\<close>

datatype SymbolType = SYMBOL_VARIABLE | SYMBOL_FUNCTION | SYMBOL_PARAMETER | SYMBOL_TYPE

text \<open>
  The \<open>data\<close> union of a symbol. The parameter array of a function symbol is NULL with
  count 0 at creation and no code of the repository fills it, so it is left out.
\<close>

datatype SymbolData =
    VariableData string bool
  | FunctionData string
  | ParameterData string int
  | TypeInfoData int

record Symbol =
  s_name :: string
  s_type :: SymbolType
  s_data :: SymbolData
  s_scope_level :: int
  s_line :: int
  s_column :: int


definition symbol_create_function :: "string \<Rightarrow> string \<Rightarrow> int \<Rightarrow> int \<Rightarrow> Symbol" where
  "symbol_create_function nm ret ln col =
     \<lparr>s_name = nm, s_type = SYMBOL_FUNCTION, s_data = FunctionData ret,
      s_scope_level = 0, s_line = ln, s_column = col\<rparr>"

definition symbol_create_parameter :: "string \<Rightarrow> string \<Rightarrow> int \<Rightarrow> int \<Rightarrow> int \<Rightarrow> Symbol" where
  "symbol_create_parameter nm ty_name pos ln col =
     \<lparr>s_name = nm, s_type = SYMBOL_PARAMETER, s_data = ParameterData ty_name pos,
      s_scope_level = 0, s_line = ln, s_column = col\<rparr>"

text \<open>
  Symbol tables live on the C heap and refer to their parent by pointer; the analyzer keeps
  pointers to them. The model keeps the tables in an explicit store: an address is an index
  into the store, a cell is \<open>None\<close> once its table has been freed, and \<open>malloc\<close> hands out
  the next unused index. A function that follows a pointer to a cell that is not live has
  no result (\<open>None\<close>): in C that is a use after free.
\<close>

type_synonym addr = nat

record SymbolTable =
  symbols :: "Symbol list"
  capacity :: nat
  parent :: "addr option"
  scope_level :: int

type_synonym heap = "SymbolTable option list"

definition heap_get :: "heap \<Rightarrow> addr \<Rightarrow> SymbolTable option" where
  "heap_get h a = (if a < length h then h ! a else None)"

definition symbol_table_create :: "heap \<Rightarrow> int \<Rightarrow> addr \<times> heap" where
  "symbol_table_create h lvl =
     (length h,
      h @ [Some \<lparr>symbols = [], capacity = 16, parent = None, scope_level = lvl\<rparr>])"

definition symbol_table_free :: "heap \<Rightarrow> addr option \<Rightarrow> heap option" where
  "symbol_table_free h table =
     (case table of
        None \<Rightarrow> Some h
      | Some a \<Rightarrow> (case heap_get h a of None \<Rightarrow> None | Some t \<Rightarrow> Some (h[a := None])))"


text \<open>The scan of \<open>symbol_table_lookup_local\<close>: index 0 upwards, first \<open>strcmp\<close> match.\<close>

fun scan_symbols :: "Symbol list \<Rightarrow> string \<Rightarrow> Symbol option" where
  "scan_symbols [] nm = None"
| "scan_symbols (s # ss) nm = (if s_name s = nm then Some s else scan_symbols ss nm)"

definition symbol_table_lookup_local ::
  "heap \<Rightarrow> addr option \<Rightarrow> string option \<Rightarrow> Symbol option option" where
  "symbol_table_lookup_local h table nm =
     (case table of
        None \<Rightarrow> Some None
      | Some a \<Rightarrow>
          (case nm of
             None \<Rightarrow> Some None
           | Some n \<Rightarrow>
               (case heap_get h a of
                  None \<Rightarrow> None
                | Some t \<Rightarrow> Some (scan_symbols (symbols t) n))))"

text \<open>
  \<open>symbol_table_lookup\<close> and \<open>symbol_table_lookup_global\<close> call each other in C. The
  recursion follows parent pointers and ends only if the chain does, so it is a partial
  function: the outer \<open>None\<close> is "no result" (an endless chain or a dead pointer), \<open>Some None\<close>
  is the NULL the C code returns for "not found". The body of \<open>symbol_table_lookup_global\<close>
  is inlined in the recursive equation and stated on its own below.
\<close>

partial_function (option) symbol_table_lookup ::
  "heap \<Rightarrow> addr option \<Rightarrow> string option \<Rightarrow> Symbol option option" where
  "symbol_table_lookup h table nm =
     (case table of
        None \<Rightarrow> Some None
      | Some a \<Rightarrow>
          (case nm of
             None \<Rightarrow> Some None
           | Some n \<Rightarrow>
               (case symbol_table_lookup_local h table nm of
                  None \<Rightarrow> None
                | Some (Some found) \<Rightarrow> Some (Some found)
                | Some None \<Rightarrow>
                    (case heap_get h a of
                       None \<Rightarrow> None
                     | Some t \<Rightarrow>
                         (case parent t of
                            None \<Rightarrow> Some None
                          | Some pa \<Rightarrow> symbol_table_lookup h (Some pa) nm)))))"

declare symbol_table_lookup.simps [code]

definition symbol_table_lookup_global ::
  "heap \<Rightarrow> addr option \<Rightarrow> string option \<Rightarrow> Symbol option option" where
  "symbol_table_lookup_global h table nm =
     (case table of
        None \<Rightarrow> Some None
      | Some a \<Rightarrow>
          (case nm of
             None \<Rightarrow> Some None
           | Some n \<Rightarrow>
               (case heap_get h a of
                  None \<Rightarrow> None
                | Some t \<Rightarrow>
                    (case parent t of
                       None \<Rightarrow> Some None
                     | Some pa \<Rightarrow> symbol_table_lookup h (Some pa) nm))))"

text \<open>
  The analyzer. \<open>scope_stack\<close> is the live part of the C array, so \<open>scope_stack_size\<close> is
  its length.
\<close>

record SemanticAnalyzer =
  current_scope :: addr
  a_had_error :: bool
  a_last_error :: "Error option"
  scope_stack :: "addr list"
  scope_stack_capacity :: nat

definition semantic_analyzer_create :: "heap \<Rightarrow> heap \<times> SemanticAnalyzer" where
  "semantic_analyzer_create h =
     (case symbol_table_create h 0 of
        (a, h') \<Rightarrow>
          (h', \<lparr>current_scope = a, a_had_error = False, a_last_error = None,
                scope_stack = [a], scope_stack_capacity = 16\<rparr>))"

definition semantic_analyzer_enter_scope ::
  "heap \<times> SemanticAnalyzer \<Rightarrow> (heap \<times> SemanticAnalyzer) option" where
  "semantic_analyzer_enter_scope st =
     (case st of
        (h, an) \<Rightarrow>
          (case heap_get h (current_scope an) of
             None \<Rightarrow> None
           | Some cur \<Rightarrow>
               (case symbol_table_create h (scope_level cur + 1) of
                  (new_scope, h1) \<Rightarrow>
                    (case heap_get h1 new_scope of
                       None \<Rightarrow> None
                     | Some t \<Rightarrow>
                         Some (h1[new_scope := Some (t\<lparr>parent := Some (current_scope an)\<rparr>)],
                               an\<lparr>scope_stack_capacity :=
                                     (if scope_stack_capacity an \<le> length (scope_stack an)
                                      then scope_stack_capacity an * 2
                                      else scope_stack_capacity an),
                                   scope_stack := scope_stack an @ [new_scope],
                                   current_scope := new_scope\<rparr>)))))"

definition semantic_analyzer_exit_scope ::
  "heap \<times> SemanticAnalyzer \<Rightarrow> (heap \<times> SemanticAnalyzer) option" where
  "semantic_analyzer_exit_scope st =
     (case st of
        (h, an) \<Rightarrow>
          if length (scope_stack an) \<le> 1 then Some (h, an)
          else
            (case symbol_table_free h (Some (current_scope an)) of
               None \<Rightarrow> None
             | Some h' \<Rightarrow>
                 Some (h', an\<lparr>scope_stack := butlast (scope_stack an),
                               current_scope := last (butlast (scope_stack an))\<rparr>)))"

definition semantic_analyzer_current_scope :: "SemanticAnalyzer option \<Rightarrow> addr option" where
  "semantic_analyzer_current_scope an = map_option current_scope an"

subsection \<open>Type inference\<close>

datatype DataType =
    TYPE_INT | TYPE_FLOAT | TYPE_STRING | TYPE_CHAR | TYPE_BOOL | TYPE_VOID
  | TYPE_UNKNOWN | TYPE_ERROR

text \<open>The type-name mapping applied to a resolved variable symbol.\<close>

definition variable_type_of :: "Symbol option \<Rightarrow> DataType" where
  "variable_type_of symb =
     (case symb of
        None \<Rightarrow> TYPE_UNKNOWN
      | Some s \<Rightarrow>
          if s_type s = SYMBOL_VARIABLE then
            (case s_data s of
               VariableData ty_name mut \<Rightarrow>
                 if ty_name = ''int'' then TYPE_INT
                 else if ty_name = ''float'' then TYPE_FLOAT
                 else if ty_name = ''string'' then TYPE_STRING
                 else if ty_name = ''bool'' then TYPE_BOOL
                 else if ty_name = ''void'' then TYPE_VOID
                 else TYPE_UNKNOWN
             | _ \<Rightarrow> TYPE_UNKNOWN)
          else TYPE_UNKNOWN)"

definition is_comparison_operator :: "string option \<Rightarrow> bool" where
  "is_comparison_operator op =
     (case op of
        None \<Rightarrow> False
      | Some s \<Rightarrow> s = ''=='' \<or> s = ''!='' \<or> s = ''<'' \<or> s = ''<='' \<or> s = ''>'' \<or> s = ''>='')"

definition is_logical_operator :: "string option \<Rightarrow> bool" where
  "is_logical_operator op =
     (case op of None \<Rightarrow> False | Some s \<Rightarrow> s = ''&&'' \<or> s = ''||'')"

text \<open>The tail of the \<open>NODE_BINARY_EXPRESSION\<close> case, once both operand types are known.\<close>

definition binary_result_type :: "DataType \<Rightarrow> DataType \<Rightarrow> string option \<Rightarrow> DataType" where
  "binary_result_type left_type right_type op =
     (if left_type = right_type \<and> (left_type = TYPE_INT \<or> left_type = TYPE_FLOAT) then left_type
      else if is_comparison_operator op then TYPE_BOOL
      else if is_logical_operator op then TYPE_BOOL
      else TYPE_ERROR)"

text \<open>
  \<open>ast_node_get_type\<close>. The result is \<open>None\<close> only when the identifier lookup has no
  result. A binary node whose union was never filled has NULL children and a NULL operator.
\<close>

fun ast_node_get_type ::
  "heap \<Rightarrow> ASTNode option \<Rightarrow> SemanticAnalyzer option \<Rightarrow> DataType option" where
  "ast_node_get_type h None an = Some TYPE_ERROR"
| "ast_node_get_type h (Some (ASTNode ty tok d ch)) an =
     (if ty = NODE_LITERAL then
        (if token_has_type tok TOKEN_INTEGER_LITERAL then Some TYPE_INT
         else if token_has_type tok TOKEN_FLOAT_LITERAL then Some TYPE_FLOAT
         else if token_has_type tok TOKEN_STRING_LITERAL then Some TYPE_STRING
         else if token_has_type tok TOKEN_TRUE \<or> token_has_type tok TOKEN_FALSE then Some TYPE_BOOL
         else Some TYPE_UNKNOWN)
      else if ty = NODE_IDENTIFIER then
        (case (an, d) of
           (Some a, IdentifierData (Some nm)) \<Rightarrow>
             (case symbol_table_lookup h (Some (current_scope a)) (Some nm) of
                None \<Rightarrow> None
              | Some symb \<Rightarrow> Some (variable_type_of symb))
         | _ \<Rightarrow> Some TYPE_UNKNOWN)
      else if ty = NODE_BINARY_EXPRESSION then
        (case d of
           BinaryData l r op \<Rightarrow>
             (case ast_node_get_type h l an of
                None \<Rightarrow> None
              | Some left_type \<Rightarrow>
                  (case ast_node_get_type h r an of
                     None \<Rightarrow> None
                   | Some right_type \<Rightarrow> Some (binary_result_type left_type right_type op)))
         | _ \<Rightarrow> Some (binary_result_type TYPE_ERROR TYPE_ERROR None))
      else Some TYPE_UNKNOWN)"

definition semantic_analyze :: "heap \<Rightarrow> ASTNode option \<Rightarrow> SemanticAnalyzer option \<Rightarrow> bool option" where
  "semantic_analyze h node an =
     (if node = None \<or> an = None then Some False
      else map_option (\<lambda>ty. ty \<noteq> TYPE_ERROR) (ast_node_get_type h node an))"

subsection \<open>Sequences of scope operations\<close>

datatype scope_op = Enter | Exit

fun run_scope_ops ::
  "scope_op list \<Rightarrow> heap \<times> SemanticAnalyzer \<Rightarrow> (heap \<times> SemanticAnalyzer) option" where
  "run_scope_ops [] st = Some st"
| "run_scope_ops (Enter # ops) st =
     (case semantic_analyzer_enter_scope st of None \<Rightarrow> None | Some st' \<Rightarrow> run_scope_ops ops st')"
| "run_scope_ops (Exit # ops) st =
     (case semantic_analyzer_exit_scope st of None \<Rightarrow> None | Some st' \<Rightarrow> run_scope_ops ops st')"

text \<open>
  The shape of the scope stack: reading the stack from the bottom, every address is a live
  table, its level is its index, and its parent is the entry below it (\<open>prev\<close> for the
  bottom entry).
\<close>

fun chain_ok :: "heap \<Rightarrow> addr option \<Rightarrow> int \<Rightarrow> addr list \<Rightarrow> bool" where
  "chain_ok h prev lvl [] = True"
| "chain_ok h prev lvl (a # as) =
     (case heap_get h a of
        None \<Rightarrow> False
      | Some t \<Rightarrow> parent t = prev \<and> scope_level t = lvl \<and> chain_ok h (Some a) (lvl + 1) as)"

definition scope_stack_ok :: "heap \<times> SemanticAnalyzer \<Rightarrow> bool" where
  "scope_stack_ok st =
     (case st of
        (h, an) \<Rightarrow>
          scope_stack an \<noteq> [] \<and> current_scope an = last (scope_stack an)
          \<and> distinct (scope_stack an) \<and> chain_ok h None 0 (scope_stack an))"

section \<open>Code generator (src/codegen/codegen.h, codegen.c)\<close>

datatype CodeGenResult =
    CODEGEN_SUCCESS
  | CODEGEN_ERROR_NULL_ANALYZER
  | CODEGEN_ERROR_NULL_AST
  | CODEGEN_ERROR_UNSUPPORTED_NODE
  | CODEGEN_ERROR_SYMBOL_NOT_FOUND
  | CODEGEN_ERROR_TYPE_MISMATCH
  | CODEGEN_ERROR_INVALID_EXPRESSION

text \<open>
  Registers are the indices of the C enum: \<open>REGISTER_RAX\<close> is 0, \<open>REGISTER_RBP\<close> is 14,
  \<open>REGISTER_RSP\<close> is 15 and \<open>REGISTER_COUNT\<close> is 16.
\<close>

definition REGISTER_RAX :: nat where "REGISTER_RAX = 0"
definition REGISTER_RBP :: nat where "REGISTER_RBP = 14"
definition REGISTER_COUNT :: nat where "REGISTER_COUNT = 16"

text \<open>
  The generator. \<open>output_file\<close> is \<open>None\<close> for a NULL \<open>FILE*\<close> and otherwise holds the
  text written so far; writes are taken to succeed. The counters are C \<open>int\<close>s, 32-bit
  words read as signed numbers by \<open>sint\<close>. C leaves signed overflow undefined; the machine
  code of \<open>+=\<close> and \<open>-=\<close> wraps around, and so do \<open>+\<close> and \<open>-\<close> on words.
\<close>

record CodeGenerator =
  symbol_table :: addr
  output_file :: "string option"
  g_had_error :: bool
  g_last_error :: string
  label_counter :: "32 word"
  stack_offset :: "32 word"
  used_registers :: "nat \<Rightarrow> bool"
  temp_var_counter :: "32 word"

definition code_generator_create :: "addr \<Rightarrow> CodeGenerator" where
  "code_generator_create table =
     \<lparr>symbol_table = table, output_file = None, g_had_error = False, g_last_error = [],
      label_counter = 0, stack_offset = 0, used_registers = (\<lambda>i. False),
      temp_var_counter = 0\<rparr>"

text \<open>Decimal output of \<open>%d\<close>.\<close>

definition digit_char :: "nat \<Rightarrow> char" where
  "digit_char n = ''0123456789'' ! (n mod 10)"

fun show_nat :: "nat \<Rightarrow> string" where
  "show_nat n =
     (if n < 10 then [digit_char n]
      else show_nat (n div 10) @ [digit_char (n mod 10)])"

definition show_int :: "int \<Rightarrow> string" where
  "show_int i = (if i < 0 then CHR ''-'' # show_nat (nat (- i)) else show_nat (nat i))"

text \<open>\<open>fprintf(generator->output_file, ...)\<close> with the formatted text \<open>s\<close>.\<close>

definition fprintf_out :: "CodeGenerator \<Rightarrow> string \<Rightarrow> CodeGenerator" where
  "fprintf_out g s = g\<lparr>output_file := map_option (\<lambda>written. written @ s) (output_file g)\<rparr>"

text \<open>
  \<open>code_generator_error\<close>: \<open>vsnprintf\<close> into the 256-byte buffer keeps at most 255
  characters of the formatted message.
\<close>

definition code_generator_error :: "CodeGenerator \<Rightarrow> string \<Rightarrow> CodeGenerator" where
  "code_generator_error g msg = g\<lparr>g_last_error := take 255 msg, g_had_error := True\<rparr>"

text \<open>
  \<open>code_generator_set_output\<close>. Whether \<open>fopen\<close> succeeds is a parameter; a file opened
  for writing starts empty.
\<close>

definition code_generator_set_output ::
  "CodeGenerator \<Rightarrow> string option \<Rightarrow> bool \<Rightarrow> CodeGenResult \<times> CodeGenerator" where
  "code_generator_set_output g output_filename fopen_ok =
     (case output_filename of
        None \<Rightarrow> (CODEGEN_ERROR_NULL_ANALYZER, g)
      | Some fname \<Rightarrow>
          if fopen_ok then (CODEGEN_SUCCESS, g\<lparr>output_file := Some []\<rparr>)
          else (CODEGEN_ERROR_INVALID_EXPRESSION,
                code_generator_error (g\<lparr>output_file := None\<rparr>)
                  (''Failed to open output file: '' @ fname)))"

definition code_generator_emit_prologue :: "CodeGenerator \<Rightarrow> CodeGenResult \<times> CodeGenerator" where
  "code_generator_emit_prologue g =
     (if output_file g = None then (CODEGEN_ERROR_NULL_ANALYZER, g)
      else (CODEGEN_SUCCESS,
            fprintf_out (fprintf_out (fprintf_out (fprintf_out (fprintf_out (fprintf_out g
              ''    .section .data\<newline>'')
              ''    .section .text\<newline>'')
              ''    .global _main\<newline>'')
              ''_main:\<newline>'')
              ''    push    rbp\<newline>'')
              ''    mov     rbp, rsp\<newline>''))"

definition code_generator_emit_epilogue :: "CodeGenerator \<Rightarrow> CodeGenResult \<times> CodeGenerator" where
  "code_generator_emit_epilogue g =
     (if output_file g = None then (CODEGEN_ERROR_NULL_ANALYZER, g)
      else (CODEGEN_SUCCESS,
            fprintf_out (fprintf_out (fprintf_out g
              ''    mov     rsp, rbp\<newline>'')
              ''    pop     rbp\<newline>'')
              ''    ret\<newline>''))"

definition code_generator_emit_comment ::
  "CodeGenerator \<Rightarrow> string option \<Rightarrow> CodeGenResult \<times> CodeGenerator" where
  "code_generator_emit_comment g comment =
     (case comment of
        None \<Rightarrow> (CODEGEN_ERROR_NULL_ANALYZER, g)
      | Some c \<Rightarrow>
          if output_file g = None then (CODEGEN_ERROR_NULL_ANALYZER, g)
          else (CODEGEN_SUCCESS, fprintf_out g (''    # '' @ c @ ''\<newline>'')))"

text \<open>\<open>%-7s\<close>: the mnemonic, padded with blanks on the right to seven characters.\<close>

definition pad7 :: "string \<Rightarrow> string" where
  "pad7 s = s @ replicate (7 - length s) CHR '' ''"

definition code_generator_emit_instruction ::
  "CodeGenerator \<Rightarrow> string option \<Rightarrow> string option \<Rightarrow> CodeGenResult \<times> CodeGenerator" where
  "code_generator_emit_instruction g instruction operands =
     (case instruction of
        None \<Rightarrow> (CODEGEN_ERROR_NULL_ANALYZER, g)
      | Some ins \<Rightarrow>
          if output_file g = None then (CODEGEN_ERROR_NULL_ANALYZER, g)
          else
            (case operands of
               Some ops \<Rightarrow> (CODEGEN_SUCCESS, fprintf_out g (''    '' @ pad7 ins @ '' '' @ ops @ ''\<newline>''))
             | None \<Rightarrow> (CODEGEN_SUCCESS, fprintf_out g (''    '' @ ins @ ''\<newline>''))))"

definition code_generator_emit_label ::
  "CodeGenerator \<Rightarrow> string option \<Rightarrow> CodeGenResult \<times> CodeGenerator" where
  "code_generator_emit_label g label =
     (case label of
        None \<Rightarrow> (CODEGEN_ERROR_NULL_ANALYZER, g)
      | Some l \<Rightarrow>
          if output_file g = None then (CODEGEN_ERROR_NULL_ANALYZER, g)
          else (CODEGEN_SUCCESS, fprintf_out g (l @ '':\<newline>'')))"

text \<open>First-fit allocation over \<open>REGISTER_RAX .. REGISTER_RBP - 1\<close>, \<open>k\<close> registers left to try.\<close>

fun allocate_scan :: "(nat \<Rightarrow> bool) \<Rightarrow> nat \<Rightarrow> nat \<Rightarrow> nat option" where
  "allocate_scan used i 0 = None"
| "allocate_scan used i (Suc k) = (if \<not> used i then Some i else allocate_scan used (Suc i) k)"

definition code_generator_allocate_register :: "CodeGenerator \<Rightarrow> nat \<times> CodeGenerator" where
  "code_generator_allocate_register g =
     (case allocate_scan (used_registers g) REGISTER_RAX (REGISTER_RBP - REGISTER_RAX) of
        Some i \<Rightarrow> (i, g\<lparr>used_registers := (used_registers g)(i := True)\<rparr>)
      | None \<Rightarrow> (REGISTER_COUNT, g))"

definition code_generator_free_register :: "CodeGenerator \<Rightarrow> nat \<Rightarrow> CodeGenerator" where
  "code_generator_free_register g reg =
     (if reg < REGISTER_COUNT then g\<lparr>used_registers := (used_registers g)(reg := False)\<rparr> else g)"

text \<open>
  The \<open>int_value\<close> member of a node's literal union. A union that was zero-filled reads as
  0. Reading it from a float or string payload reinterprets bytes; the parser and the tests
  never build such a node with an integer-literal token, the model returns 0 there.
\<close>

definition literal_int_value :: "NodeData \<Rightarrow> 32 word" where
  "literal_int_value d = (case d of LiteralData (IntValue v) \<Rightarrow> v | _ \<Rightarrow> 0)"

definition code_generator_generate_literal ::
  "CodeGenerator \<Rightarrow> ASTNode option \<Rightarrow> CodeGenResult \<times> CodeGenerator" where
  "code_generator_generate_literal g node =
     (case node of
        None \<Rightarrow> (CODEGEN_ERROR_NULL_ANALYZER, g)
      | Some n \<Rightarrow>
          if output_file g = None then (CODEGEN_ERROR_NULL_ANALYZER, g)
          else if node_type n \<noteq> NODE_LITERAL then (CODEGEN_ERROR_UNSUPPORTED_NODE, g)
          else if token_has_type (n_token n) TOKEN_INTEGER_LITERAL then
            (CODEGEN_SUCCESS,
             fprintf_out g (''    mov     rax, '' @ show_int (sint (literal_int_value (n_data n))) @ ''\<newline>''))
          else (CODEGEN_ERROR_UNSUPPORTED_NODE, g))"

text \<open>
  The operator dispatch at the end of \<open>code_generator_generate_binary\<close>. The operator
  string goes to \<open>strcmp\<close> unchecked, so a NULL operator has no result (\<open>None\<close>).
\<close>

definition emit_binary_operation ::
  "CodeGenerator \<Rightarrow> string option \<Rightarrow> (CodeGenResult \<times> CodeGenerator) option" where
  "emit_binary_operation g op =
     (case op of
        None \<Rightarrow> None
      | Some s \<Rightarrow>
          if s = ''+'' then Some (CODEGEN_SUCCESS, fprintf_out g ''    add     rax, rbx\<newline>'')
          else if s = ''-'' then
            Some (CODEGEN_SUCCESS,
                  fprintf_out (fprintf_out g ''    sub     rbx, rax\<newline>'') ''    mov     rax, rbx\<newline>'')
          else if s = ''*'' then Some (CODEGEN_SUCCESS, fprintf_out g ''    imul    rax, rbx\<newline>'')
          else Some (CODEGEN_ERROR_UNSUPPORTED_NODE, g))"

text \<open>
  \<open>code_generator_generate_expression\<close> and \<open>code_generator_generate_binary\<close>. The result is
  \<open>None\<close> where the C code passes a NULL operator to \<open>strcmp\<close>. A binary node whose union
  was never filled has NULL children and a NULL operator.
\<close>

fun code_generator_generate_expression ::
      "CodeGenerator \<Rightarrow> ASTNode option \<Rightarrow> (CodeGenResult \<times> CodeGenerator) option"
  and code_generator_generate_binary ::
      "CodeGenerator \<Rightarrow> ASTNode option \<Rightarrow> (CodeGenResult \<times> CodeGenerator) option" where
  "code_generator_generate_expression g None = Some (CODEGEN_ERROR_NULL_ANALYZER, g)"
| "code_generator_generate_expression g (Some (ASTNode ty tok d ch)) =
     (if ty = NODE_LITERAL then Some (code_generator_generate_literal g (Some (ASTNode ty tok d ch)))
      else if ty = NODE_BINARY_EXPRESSION then
        code_generator_generate_binary g (Some (ASTNode ty tok d ch))
      else Some (CODEGEN_ERROR_UNSUPPORTED_NODE, g))"
| "code_generator_generate_binary g None = Some (CODEGEN_ERROR_NULL_ANALYZER, g)"
| "code_generator_generate_binary g (Some (ASTNode ty tok d ch)) =
     (if output_file g = None then Some (CODEGEN_ERROR_NULL_ANALYZER, g)
      else if ty \<noteq> NODE_BINARY_EXPRESSION then Some (CODEGEN_ERROR_UNSUPPORTED_NODE, g)
      else
        (case d of
           BinaryData l r op \<Rightarrow>
             (case code_generator_generate_expression g l of
                None \<Rightarrow> None
              | Some (result, g1) \<Rightarrow>
                  if result \<noteq> CODEGEN_SUCCESS then Some (result, g1)
                  else
                    (case code_generator_generate_expression
                            (fprintf_out g1 ''    push    rax\<newline>'') r of
                       None \<Rightarrow> None
                     | Some (result2, g2) \<Rightarrow>
                         if result2 \<noteq> CODEGEN_SUCCESS then Some (result2, g2)
                         else emit_binary_operation (fprintf_out g2 ''    pop     rbx\<newline>'') op))
         | _ \<Rightarrow> Some (CODEGEN_ERROR_NULL_ANALYZER, g)))"

definition declaration_initializer :: "NodeData \<Rightarrow> ASTNode option" where
  "declaration_initializer d = (case d of DeclarationData nm init ty_name mut \<Rightarrow> init | _ \<Rightarrow> None)"

definition code_generator_generate_variable_declaration ::
  "CodeGenerator \<Rightarrow> ASTNode option \<Rightarrow> (CodeGenResult \<times> CodeGenerator) option" where
  "code_generator_generate_variable_declaration g node =
     (case node of
        None \<Rightarrow> Some (CODEGEN_ERROR_NULL_ANALYZER, g)
      | Some n \<Rightarrow>
          if output_file g = None then Some (CODEGEN_ERROR_NULL_ANALYZER, g)
          else if node_type n \<noteq> NODE_VARIABLE_DECLARATION then Some (CODEGEN_ERROR_UNSUPPORTED_NODE, g)
          else
            (let g1 = fprintf_out (g\<lparr>stack_offset := stack_offset g + 8\<rparr>) ''    sub     rsp, 8\<newline>''
             in case declaration_initializer (n_data n) of
                  None \<Rightarrow> Some (CODEGEN_SUCCESS, g1)
                | Some init \<Rightarrow>
                    (case code_generator_generate_expression g1 (Some init) of
                       None \<Rightarrow> None
                     | Some (result, g2) \<Rightarrow>
                         if result \<noteq> CODEGEN_SUCCESS then Some (result, g2)
                         else Some (CODEGEN_SUCCESS,
                                    fprintf_out g2 (''    mov     [rbp-'' @ show_int (sint (stack_offset g2))
                                                    @ ''], rax\<newline>'')))))"

text \<open>The loop of \<open>code_generator_generate_program\<close> over the children of a program node.\<close>

fun generate_children ::
  "CodeGenerator \<Rightarrow> ASTNode list \<Rightarrow> (CodeGenResult \<times> CodeGenerator) option" where
  "generate_children g [] = Some (CODEGEN_SUCCESS, g)"
| "generate_children g (child # rest) =
     (case (if node_type child = NODE_VARIABLE_DECLARATION then
              code_generator_generate_variable_declaration g (Some child)
            else if node_type child = NODE_BINARY_EXPRESSION \<or> node_type child = NODE_LITERAL
                    \<or> node_type child = NODE_IDENTIFIER then
              code_generator_generate_expression g (Some child)
            else Some (CODEGEN_ERROR_UNSUPPORTED_NODE, g)) of
        None \<Rightarrow> None
      | Some (result, g1) \<Rightarrow>
          if result \<noteq> CODEGEN_SUCCESS then Some (result, g1) else generate_children g1 rest)"

definition code_generator_generate_program ::
  "CodeGenerator \<Rightarrow> ASTNode option \<Rightarrow> (CodeGenResult \<times> CodeGenerator) option" where
  "code_generator_generate_program g node =
     (case node of
        None \<Rightarrow> Some (CODEGEN_ERROR_NULL_ANALYZER, g)
      | Some n \<Rightarrow>
          if output_file g = None then Some (CODEGEN_ERROR_NULL_ANALYZER, g)
          else
            (case code_generator_emit_prologue g of
               (result, g1) \<Rightarrow>
                 if result \<noteq> CODEGEN_SUCCESS then Some (result, g1)
                 else
                   (case (if node_type n = NODE_PROGRAM then generate_children g1 (n_children n)
                          else code_generator_generate_expression g1 (Some n)) of
                      None \<Rightarrow> None
                    | Some (result2, g2) \<Rightarrow>
                        if result2 \<noteq> CODEGEN_SUCCESS then Some (result2, g2)
                        else Some (code_generator_emit_epilogue g2))))"

definition code_generator_generate ::
  "CodeGenerator \<Rightarrow> ASTNode option \<Rightarrow> string option \<Rightarrow> bool
     \<Rightarrow> (CodeGenResult \<times> CodeGenerator) option" where
  "code_generator_generate g ast output_filename fopen_ok =
     (if ast = None \<or> output_filename = None then Some (CODEGEN_ERROR_NULL_ANALYZER, g)
      else
        (case code_generator_set_output g output_filename fopen_ok of
           (result, g1) \<Rightarrow>
             if result \<noteq> CODEGEN_SUCCESS then Some (result, g1)
             else code_generator_generate_program g1 ast))"

definition code_generator_push_stack ::
  "CodeGenerator \<Rightarrow> 32 word \<Rightarrow> CodeGenResult \<times> CodeGenerator" where
  "code_generator_push_stack g sz =
     (if output_file g = None then (CODEGEN_ERROR_NULL_ANALYZER, g)
      else (CODEGEN_SUCCESS,
            fprintf_out (g\<lparr>stack_offset := stack_offset g + sz\<rparr>)
              (''    sub     rsp, '' @ show_int (sint sz) @ ''\<newline>'')))"

definition code_generator_pop_stack ::
  "CodeGenerator \<Rightarrow> 32 word \<Rightarrow> CodeGenResult \<times> CodeGenerator" where
  "code_generator_pop_stack g sz =
     (if output_file g = None then (CODEGEN_ERROR_NULL_ANALYZER, g)
      else (CODEGEN_SUCCESS,
            fprintf_out (g\<lparr>stack_offset := stack_offset g - sz\<rparr>)
              (''    add     rsp, '' @ show_int (sint sz) @ ''\<newline>'')))"

text \<open>
  The operations of codegen.h as one type, so that a statement can range over "every
  generator operation". \<open>OpSetOutput\<close> carries whether \<open>fopen\<close> succeeds.
\<close>

datatype gen_op =
    OpSetOutput "string option" bool
  | OpGenerate "ASTNode option" "string option" bool
  | OpGenerateExpression "ASTNode option"
  | OpGenerateLiteral "ASTNode option"
  | OpGenerateBinary "ASTNode option"
  | OpGenerateVariableDeclaration "ASTNode option"
  | OpGenerateProgram "ASTNode option"
  | OpAllocateRegister
  | OpFreeRegister nat
  | OpError string
  | OpEmitPrologue
  | OpEmitEpilogue
  | OpEmitLabel "string option"
  | OpEmitInstruction "string option" "string option"
  | OpEmitComment "string option"
  | OpPushStack "32 word"
  | OpPopStack "32 word"

fun apply_gen_op :: "gen_op \<Rightarrow> CodeGenerator \<Rightarrow> CodeGenerator option" where
  "apply_gen_op (OpSetOutput fname ok) g = Some (snd (code_generator_set_output g fname ok))"
| "apply_gen_op (OpGenerate ast fname ok) g = map_option snd (code_generator_generate g ast fname ok)"
| "apply_gen_op (OpGenerateExpression node) g = map_option snd (code_generator_generate_expression g node)"
| "apply_gen_op (OpGenerateLiteral node) g = Some (snd (code_generator_generate_literal g node))"
| "apply_gen_op (OpGenerateBinary node) g = map_option snd (code_generator_generate_binary g node)"
| "apply_gen_op (OpGenerateVariableDeclaration node) g =
     map_option snd (code_generator_generate_variable_declaration g node)"
| "apply_gen_op (OpGenerateProgram node) g = map_option snd (code_generator_generate_program g node)"
| "apply_gen_op OpAllocateRegister g = Some (snd (code_generator_allocate_register g))"
| "apply_gen_op (OpFreeRegister reg) g = Some (code_generator_free_register g reg)"
| "apply_gen_op (OpError msg) g = Some (code_generator_error g msg)"
| "apply_gen_op OpEmitPrologue g = Some (snd (code_generator_emit_prologue g))"
| "apply_gen_op OpEmitEpilogue g = Some (snd (code_generator_emit_epilogue g))"
| "apply_gen_op (OpEmitLabel l) g = Some (snd (code_generator_emit_label g l))"
| "apply_gen_op (OpEmitInstruction ins ops) g = Some (snd (code_generator_emit_instruction g ins ops))"
| "apply_gen_op (OpEmitComment c) g = Some (snd (code_generator_emit_comment g c))"
| "apply_gen_op (OpPushStack sz) g = Some (snd (code_generator_push_stack g sz))"
| "apply_gen_op (OpPopStack sz) g = Some (snd (code_generator_pop_stack g sz))"

text \<open>
  The largest value of a C \<open>int\<close>, and the bytes an operation can add to the stack-offset
  counter: 8 for a variable declaration, 8 for each variable declaration among the children
  of a program node (the loop of \<open>code_generator_generate_program\<close> stops at the first child
  that fails), the argument for \<open>push_stack\<close>, nothing for the others.
\<close>

definition INT_MAX :: int where "INT_MAX = 2147483647"

definition declaration_bytes :: "ASTNode list \<Rightarrow> int" where
  "declaration_bytes cs =
     8 * int (length (filter (\<lambda>c. node_type c = NODE_VARIABLE_DECLARATION) cs))"

definition program_bytes :: "ASTNode option \<Rightarrow> int" where
  "program_bytes node =
     (case node of
        None \<Rightarrow> 0
      | Some n \<Rightarrow> if node_type n = NODE_PROGRAM then declaration_bytes (n_children n) else 0)"

fun op_growth :: "gen_op \<Rightarrow> int" where
  "op_growth (OpGenerate ast fname ok) = program_bytes ast"
| "op_growth (OpGenerateProgram node) = program_bytes node"
| "op_growth (OpGenerateVariableDeclaration node) = 8"
| "op_growth (OpPushStack sz) = sint sz"
| "op_growth op = 0"

text \<open>
  One declaration \<open>int x;\<close> generated into a freshly opened output: the state in which the
  counter reads 8.
\<close>

definition declaration_of_x :: ASTNode where
  "declaration_of_x = ast_node_create_variable_declaration None (Some ''int'') (Some ''x'') None"

definition generator_after_declaration :: CodeGenerator where
  "generator_after_declaration =
     (case code_generator_set_output (code_generator_create 0) (Some ''out.asm'') True of
        (r0, g0) \<Rightarrow>
          (case code_generator_generate_variable_declaration g0 (Some declaration_of_x) of
             None \<Rightarrow> g0
           | Some (r1, g1) \<Rightarrow> g1))"

text \<open>The AST that tests/test_codegen_comprehensive.c builds for \<open>5 + 3\<close>.\<close>

definition five_plus_three :: ASTNode where
  "five_plus_three =
     ast_node_create_binary (Some (token_create TOKEN_PLUS ''+'' 1 1))
       (Some (ast_node_create_literal_int
                (Some ((token_create TOKEN_INTEGER_LITERAL ''5'' 1 1)\<lparr>literal := IntLiteral 5\<rparr>)) 5))
       (Some (ast_node_create_literal_int
                (Some ((token_create TOKEN_INTEGER_LITERAL ''3'' 1 1)\<lparr>literal := IntLiteral 3\<rparr>)) 3))
       (Some ''+'')"

text \<open>The lines of a text, as \<open>fgets\<close> hands them to the test, without the line ends.\<close>

fun split_lines_from :: "string \<Rightarrow> string \<Rightarrow> string list" where
  "split_lines_from [] cur = (if cur = [] then [] else [cur])"
| "split_lines_from (c # cs) cur =
     (if c = CHR 0x0A then cur # split_lines_from cs [] else split_lines_from cs (cur @ [c]))"

definition split_lines :: "string \<Rightarrow> string list" where
  "split_lines s = split_lines_from s []"

text \<open>The text a generator has written.\<close>

definition written :: "CodeGenerator \<Rightarrow> string" where
  "written g = (case output_file g of None \<Rightarrow> [] | Some s \<Rightarrow> s)"

text \<open>A generator whose output has just been opened.\<close>

definition opened_generator :: CodeGenerator where
  "opened_generator =
     snd (code_generator_set_output (code_generator_create 0) (Some ''test_binary.asm'') True)"

section \<open>Properties of the code generator\<close>

lemma stack_offset_fprintf_out [simp]: "stack_offset (fprintf_out g s) = stack_offset g"
  by (simp add: fprintf_out_def)

lemma generate_literal_stack_offset:
  "stack_offset (snd (code_generator_generate_literal g node)) = stack_offset g"
  by (simp add: code_generator_generate_literal_def split: option.splits)

lemma emit_binary_operation_stack_offset:
  "emit_binary_operation g op = Some (r, g') \<Longrightarrow> stack_offset g' = stack_offset g"
  by (auto simp: emit_binary_operation_def split: option.splits if_splits)

lemma generate_expression_binary_stack_offset:
  "(\<forall>r g'. code_generator_generate_expression g node = Some (r, g') \<longrightarrow> stack_offset g' = stack_offset g)"
  "(\<forall>r g'. code_generator_generate_binary g node2 = Some (r, g') \<longrightarrow> stack_offset g' = stack_offset g)"
proof (induction g node and g node2
       rule: code_generator_generate_expression_code_generator_generate_binary.induct)
  case (1 g)
  then show ?case by simp
next
  case (2 g ty tok d ch)
  then show ?case
    using generate_literal_stack_offset[of g "Some (ASTNode ty tok d ch)"]
    by (auto simp del: code_generator_generate_binary.simps split: if_splits)
next
  case (3 g)
  then show ?case by simp
next
  case (4 g ty tok d ch)
  show ?case
  proof (intro allI impI)
    fix r g'
    assume a: "code_generator_generate_binary g (Some (ASTNode ty tok d ch)) = Some (r, g')"
    show "stack_offset g' = stack_offset g"
    proof (cases "output_file g = None \<or> ty \<noteq> NODE_BINARY_EXPRESSION")
      case True
      with a show ?thesis by (auto split: if_splits)
    next
      case False
      then have of: "output_file g \<noteq> None" and ty: "ty = NODE_BINARY_EXPRESSION" by auto
      show ?thesis
      proof (cases d)
        case (BinaryData l rr op)
        from a of ty BinaryData obtain r1 g1 where
          e1: "code_generator_generate_expression g l = Some (r1, g1)"
          by (auto split: option.splits)
        have s1: "stack_offset g1 = stack_offset g"
          using "4.IH"(1)[of l rr op] of ty BinaryData e1 by auto
        show ?thesis
        proof (cases "r1 = CODEGEN_SUCCESS")
          case False
          with a of ty BinaryData e1 s1 show ?thesis by auto
        next
          case True
          from a of ty BinaryData e1 True obtain r2 g2 where
            e2: "code_generator_generate_expression (fprintf_out g1 ''    push    rax\<newline>'') rr = Some (r2, g2)"
            by (auto split: option.splits)
          have s2: "stack_offset g2 = stack_offset g1"
            using "4.IH"(2)[of l rr op "(r1, g1)" r1 g1] of ty BinaryData e1 True e2 by auto
          show ?thesis
          proof (cases "r2 = CODEGEN_SUCCESS")
            case False
            with a of ty BinaryData e1 True e2 s1 s2 show ?thesis by auto
          next
            case r2: True
            with a of ty BinaryData e1 True e2
            have "emit_binary_operation (fprintf_out g2 ''    pop     rbx\<newline>'') op = Some (r, g')"
              by auto
            from emit_binary_operation_stack_offset[OF this] s1 s2 show ?thesis by simp
          qed
        qed
      qed (use a of ty in auto)
    qed
  qed
qed

lemma generate_variable_declaration_stack_offset:
  assumes "code_generator_generate_variable_declaration g node = Some (r, g')"
  shows "stack_offset g' =
           (if node \<noteq> None \<and> output_file g \<noteq> None
               \<and> node_type (the node) = NODE_VARIABLE_DECLARATION
            then stack_offset g + 8 else stack_offset g)"
proof (cases node)
  case None
  with assms show ?thesis by (simp add: code_generator_generate_variable_declaration_def)
next
  case (Some n)
  show ?thesis
  proof (cases "output_file g \<noteq> None \<and> node_type n = NODE_VARIABLE_DECLARATION")
    case False
    with assms Some show ?thesis
      by (auto simp: code_generator_generate_variable_declaration_def split: if_splits)
  next
    case True
    show ?thesis
    proof (cases "declaration_initializer (n_data n)")
      case None
      with assms Some True show ?thesis
        by (auto simp: code_generator_generate_variable_declaration_def Let_def)
    next
      case (Some init)
      let ?g1 = "fprintf_out (g\<lparr>stack_offset := stack_offset g + 8\<rparr>) ''    sub     rsp, 8\<newline>''"
      from assms \<open>node = Some n\<close> True Some obtain r2 g2 where
        e: "code_generator_generate_expression ?g1 (Some init) = Some (r2, g2)"
        by (auto simp: code_generator_generate_variable_declaration_def Let_def split: option.splits)
      from generate_expression_binary_stack_offset(1)[of ?g1 "Some init"] e
      have "stack_offset g2 = stack_offset g + 8" by simp
      with assms \<open>node = Some n\<close> True Some e show ?thesis
        by (auto simp: code_generator_generate_variable_declaration_def Let_def split: if_splits)
    qed
  qed
qed

lemma sint_add_8:
  "sint x + 8 \<le> INT_MAX \<Longrightarrow> sint (x + 8 :: 32 word) = sint x + 8"
  using sint_ge[of x]
  by (simp add: INT_MAX_def sint_word_ariths signed_take_bit_int_eq_self_iff)

lemma sint_add_nonneg:
  "0 \<le> sint y \<Longrightarrow> sint x + sint y \<le> INT_MAX \<Longrightarrow> sint (x + y :: 32 word) = sint x + sint y"
  using sint_ge[of x]
  by (simp add: INT_MAX_def sint_word_ariths signed_take_bit_int_eq_self_iff)

lemma declaration_bytes_nonneg: "0 \<le> declaration_bytes cs"
  by (simp add: declaration_bytes_def)

lemma declaration_bytes_Cons:
  "declaration_bytes (c # cs) =
     (if node_type c = NODE_VARIABLE_DECLARATION then 8 else 0) + declaration_bytes cs"
  by (simp add: declaration_bytes_def)

lemma generate_children_stack_offset:
  "generate_children g cs = Some (r, g') \<Longrightarrow>
   sint (stack_offset g) + declaration_bytes cs \<le> INT_MAX \<Longrightarrow>
   sint (stack_offset g) \<le> sint (stack_offset g')
   \<and> sint (stack_offset g') \<le> sint (stack_offset g) + declaration_bytes cs"
proof (induction cs arbitrary: g)
  case Nil
  then show ?case by (simp add: declaration_bytes_def)
next
  case (Cons c cs)
  let ?k = "if node_type c = NODE_VARIABLE_DECLARATION then 8 else 0 :: int"
  let ?step = "if node_type c = NODE_VARIABLE_DECLARATION then
              code_generator_generate_variable_declaration g (Some c)
            else if node_type c = NODE_BINARY_EXPRESSION \<or> node_type c = NODE_LITERAL
                    \<or> node_type c = NODE_IDENTIFIER then
              code_generator_generate_expression g (Some c)
            else Some (CODEGEN_ERROR_UNSUPPORTED_NODE, g)"
  from Cons.prems(1) obtain r1 g1 where s: "?step = Some (r1, g1)"
    by (cases ?step) (auto simp del: code_generator_generate_expression.simps)
  from Cons.prems(2) have room: "sint (stack_offset g) + ?k + declaration_bytes cs \<le> INT_MAX"
    by (simp add: declaration_bytes_Cons)
  have w1: "stack_offset g1 = stack_offset g \<or> (?k = 8 \<and> stack_offset g1 = stack_offset g + 8)"
    using s generate_variable_declaration_stack_offset[of g "Some c" r1 g1]
      generate_expression_binary_stack_offset(1)[of g "Some c"]
    by (auto simp del: code_generator_generate_expression.simps split: if_splits)
  have le1: "sint (stack_offset g) \<le> sint (stack_offset g1)
             \<and> sint (stack_offset g1) \<le> sint (stack_offset g) + ?k"
  proof (cases "stack_offset g1 = stack_offset g")
    case True
    then show ?thesis by simp
  next
    case False
    with w1 have k: "?k = 8" and e: "stack_offset g1 = stack_offset g + 8" by auto
    from room k declaration_bytes_nonneg[of cs] have "sint (stack_offset g) + 8 \<le> INT_MAX" by simp
    from sint_add_8[OF this] e k show ?thesis by simp
  qed
  show ?case
  proof (cases "r1 = CODEGEN_SUCCESS")
    case True
    with Cons.prems(1) s have c: "generate_children g1 cs = Some (r, g')"
      by (simp del: code_generator_generate_expression.simps)
    from le1 room have "sint (stack_offset g1) + declaration_bytes cs \<le> INT_MAX" by simp
    from Cons.IH[OF c this] le1 show ?thesis by (simp add: declaration_bytes_Cons)
  next
    case False
    with Cons.prems(1) s have "g' = g1"
      by (simp del: code_generator_generate_expression.simps)
    with le1 declaration_bytes_nonneg[of cs] show ?thesis by (simp add: declaration_bytes_Cons)
  qed
qed

lemma emit_prologue_stack_offset:
  "stack_offset (snd (code_generator_emit_prologue g)) = stack_offset g"
  by (simp add: code_generator_emit_prologue_def)

lemma emit_epilogue_stack_offset:
  "stack_offset (snd (code_generator_emit_epilogue g)) = stack_offset g"
  by (simp add: code_generator_emit_epilogue_def)

lemma program_bytes_nonneg: "0 \<le> program_bytes node"
  by (simp add: program_bytes_def declaration_bytes_nonneg split: option.splits)

lemma generate_program_stack_offset:
  assumes "code_generator_generate_program g node = Some (r, g')"
    and "sint (stack_offset g) + program_bytes node \<le> INT_MAX"
  shows "sint (stack_offset g) \<le> sint (stack_offset g')
         \<and> sint (stack_offset g') \<le> sint (stack_offset g) + program_bytes node"
proof (cases node)
  case None
  with assms show ?thesis by (simp add: code_generator_generate_program_def program_bytes_def)
next
  case (Some n)
  show ?thesis
  proof (cases "output_file g = None")
    case True
    with assms Some program_bytes_nonneg[of node] show ?thesis
      by (simp add: code_generator_generate_program_def)
  next
    case False
    obtain rp gp where p: "code_generator_emit_prologue g = (rp, gp)"
      by (cases "code_generator_emit_prologue g")
    have sp: "stack_offset gp = stack_offset g" and rp: "rp = CODEGEN_SUCCESS"
      using p emit_prologue_stack_offset[of g] False
      by (auto simp: code_generator_emit_prologue_def)
    let ?body = "if node_type n = NODE_PROGRAM then generate_children gp (n_children n)
                 else code_generator_generate_expression gp (Some n)"
    from assms(1) Some False p rp obtain r2 g2 where b: "?body = Some (r2, g2)"
      by (cases ?body)
         (auto simp: code_generator_generate_program_def
               simp del: code_generator_generate_expression.simps)
    have le2: "sint (stack_offset gp) \<le> sint (stack_offset g2)
               \<and> sint (stack_offset g2) \<le> sint (stack_offset gp) + program_bytes node"
    proof (cases "node_type n = NODE_PROGRAM")
      case True
      with b have c: "generate_children gp (n_children n) = Some (r2, g2)" by simp
      from assms(2) Some True sp
      have "sint (stack_offset gp) + declaration_bytes (n_children n) \<le> INT_MAX"
        by (simp add: program_bytes_def)
      from generate_children_stack_offset[OF c this] Some True show ?thesis
        by (simp add: program_bytes_def)
    next
      case False
      with b have "code_generator_generate_expression gp (Some n) = Some (r2, g2)" by simp
      with generate_expression_binary_stack_offset(1)[of gp "Some n"]
      have "stack_offset g2 = stack_offset gp" by blast
      with program_bytes_nonneg[of node] show ?thesis by simp
    qed
    have "stack_offset g' = stack_offset g2"
      using assms(1) Some False p rp b emit_epilogue_stack_offset[of g2]
      by (auto simp: code_generator_generate_program_def
               simp del: code_generator_generate_expression.simps split: if_splits)
    with le2 sp show ?thesis by simp
  qed
qed

lemma set_output_stack_offset:
  "stack_offset (snd (code_generator_set_output g fname ok)) = stack_offset g"
  by (simp add: code_generator_set_output_def code_generator_error_def split: option.splits)

lemma generate_stack_offset:
  assumes "code_generator_generate g ast fname ok = Some (r, g')"
    and "sint (stack_offset g) + program_bytes ast \<le> INT_MAX"
  shows "sint (stack_offset g) \<le> sint (stack_offset g')
         \<and> sint (stack_offset g') \<le> sint (stack_offset g) + program_bytes ast"
proof (cases "ast = None \<or> fname = None")
  case True
  with assms program_bytes_nonneg[of ast] show ?thesis by (auto simp: code_generator_generate_def)
next
  case False
  obtain r1 g1 where s: "code_generator_set_output g fname ok = (r1, g1)"
    by (cases "code_generator_set_output g fname ok")
  have s1: "stack_offset g1 = stack_offset g" using s set_output_stack_offset[of g fname ok] by simp
  show ?thesis
  proof (cases "r1 = CODEGEN_SUCCESS")
    case True
    with assms False s have "code_generator_generate_program g1 ast = Some (r, g')"
      by (auto simp: code_generator_generate_def)
    from generate_program_stack_offset[OF this] assms(2) s1 show ?thesis by simp
  next
    case False
    with assms \<open>\<not> (ast = None \<or> fname = None)\<close> s s1 program_bytes_nonneg[of ast] show ?thesis
      by (auto simp: code_generator_generate_def)
  qed
qed

lemma generate_children_adds:
  "generate_children g cs = Some (r, g') \<Longrightarrow>
   \<exists>m. 8 * int m \<le> declaration_bytes cs \<and> stack_offset g' = stack_offset g + 8 * of_nat m"
proof (induction cs arbitrary: g)
  case Nil
  then show ?case by (auto simp: declaration_bytes_def intro: exI[of _ 0])
next
  case (Cons c cs)
  let ?k = "if node_type c = NODE_VARIABLE_DECLARATION then 8 else 0 :: int"
  let ?step = "if node_type c = NODE_VARIABLE_DECLARATION then
              code_generator_generate_variable_declaration g (Some c)
            else if node_type c = NODE_BINARY_EXPRESSION \<or> node_type c = NODE_LITERAL
                    \<or> node_type c = NODE_IDENTIFIER then
              code_generator_generate_expression g (Some c)
            else Some (CODEGEN_ERROR_UNSUPPORTED_NODE, g)"
  from Cons.prems(1) obtain r1 g1 where s: "?step = Some (r1, g1)"
    by (cases ?step) (auto simp del: code_generator_generate_expression.simps)
  have w1: "stack_offset g1 = stack_offset g \<or> (?k = 8 \<and> stack_offset g1 = stack_offset g + 8)"
    using s generate_variable_declaration_stack_offset[of g "Some c" r1 g1]
      generate_expression_binary_stack_offset(1)[of g "Some c"]
    by (auto simp del: code_generator_generate_expression.simps split: if_splits)
  then obtain m1 :: nat where m1: "8 * int m1 \<le> ?k" "stack_offset g1 = stack_offset g + 8 * of_nat m1"
  proof
    assume "stack_offset g1 = stack_offset g"
    then show ?thesis using that[of 0] by simp
  next
    assume "?k = 8 \<and> stack_offset g1 = stack_offset g + 8"
    then show ?thesis using that[of 1] by simp
  qed
  show ?case
  proof (cases "r1 = CODEGEN_SUCCESS")
    case True
    with Cons.prems(1) s have c: "generate_children g1 cs = Some (r, g')"
      by (simp del: code_generator_generate_expression.simps)
    from Cons.IH[OF c] obtain m where m: "8 * int m \<le> declaration_bytes cs"
      "stack_offset g' = stack_offset g1 + 8 * of_nat m" by blast
    from m m1 have "8 * int (m1 + m) \<le> declaration_bytes (c # cs)"
      by (simp add: declaration_bytes_Cons)
    moreover from m m1 have "stack_offset g' = stack_offset g + 8 * of_nat (m1 + m)"
      by (simp add: algebra_simps)
    ultimately show ?thesis by blast
  next
    case False
    with Cons.prems(1) s have "g' = g1"
      by (simp del: code_generator_generate_expression.simps)
    with m1 declaration_bytes_nonneg[of cs] show ?thesis
      by (auto simp: declaration_bytes_Cons intro!: exI[of _ m1])
  qed
qed

lemma generate_program_adds:
  assumes "code_generator_generate_program g node = Some (r, g')"
  shows "\<exists>m. 8 * int m \<le> program_bytes node \<and> stack_offset g' = stack_offset g + 8 * of_nat m"
proof (cases node)
  case None
  with assms show ?thesis
    by (auto simp: code_generator_generate_program_def program_bytes_def intro: exI[of _ 0])
next
  case (Some n)
  show ?thesis
  proof (cases "output_file g = None")
    case True
    with assms Some program_bytes_nonneg[of node] show ?thesis
      by (auto simp: code_generator_generate_program_def intro!: exI[of _ 0])
  next
    case False
    obtain rp gp where p: "code_generator_emit_prologue g = (rp, gp)"
      by (cases "code_generator_emit_prologue g")
    have sp: "stack_offset gp = stack_offset g" and rp: "rp = CODEGEN_SUCCESS"
      using p emit_prologue_stack_offset[of g] False
      by (auto simp: code_generator_emit_prologue_def)
    let ?body = "if node_type n = NODE_PROGRAM then generate_children gp (n_children n)
                 else code_generator_generate_expression gp (Some n)"
    from assms(1) Some False p rp obtain r2 g2 where b: "?body = Some (r2, g2)"
      by (cases ?body)
         (auto simp: code_generator_generate_program_def
               simp del: code_generator_generate_expression.simps)
    have e: "stack_offset g' = stack_offset g2"
      using assms(1) Some False p rp b emit_epilogue_stack_offset[of g2]
      by (auto simp: code_generator_generate_program_def
               simp del: code_generator_generate_expression.simps split: if_splits)
    show ?thesis
    proof (cases "node_type n = NODE_PROGRAM")
      case True
      with b have c: "generate_children gp (n_children n) = Some (r2, g2)" by simp
      from generate_children_adds[OF c] Some True sp e show ?thesis
        by (simp add: program_bytes_def)
    next
      case False
      with b have "code_generator_generate_expression gp (Some n) = Some (r2, g2)" by simp
      with generate_expression_binary_stack_offset(1)[of gp "Some n"]
      have "stack_offset g2 = stack_offset gp" by blast
      with program_bytes_nonneg[of node] sp e show ?thesis by (auto intro!: exI[of _ 0])
    qed
  qed
qed

lemma generate_adds:
  assumes "code_generator_generate g ast fname ok = Some (r, g')"
  shows "\<exists>m. 8 * int m \<le> program_bytes ast \<and> stack_offset g' = stack_offset g + 8 * of_nat m"
proof (cases "ast = None \<or> fname = None")
  case True
  with assms program_bytes_nonneg[of ast] show ?thesis
    by (auto simp: code_generator_generate_def intro!: exI[of _ 0])
next
  case False
  obtain r1 g1 where s: "code_generator_set_output g fname ok = (r1, g1)"
    by (cases "code_generator_set_output g fname ok")
  have s1: "stack_offset g1 = stack_offset g" using s set_output_stack_offset[of g fname ok] by simp
  show ?thesis
  proof (cases "r1 = CODEGEN_SUCCESS")
    case True
    with assms False s have "code_generator_generate_program g1 ast = Some (r, g')"
      by (auto simp: code_generator_generate_def)
    from generate_program_adds[OF this] s1 show ?thesis by simp
  next
    case False
    with assms \<open>\<not> (ast = None \<or> fname = None)\<close> s s1 program_bytes_nonneg[of ast] show ?thesis
      by (auto simp: code_generator_generate_def intro!: exI[of _ 0])
  qed
qed

lemma op_adds:
  assumes a: "apply_gen_op op g = Some g'" and np: "\<forall>sz. op \<noteq> OpPopStack sz"
    and ns: "\<forall>sz. op \<noteq> OpPushStack sz"
  shows "\<exists>m. 8 * int m \<le> op_growth op \<and> stack_offset g' = stack_offset g + 8 * of_nat m"
proof (cases op)
  case (OpSetOutput f ok)
  with a show ?thesis using set_output_stack_offset[of g f ok] by (auto intro!: exI[of _ 0])
next
  case (OpGenerate ast f ok)
  with a show ?thesis using generate_adds[of g ast f ok] by auto
next
  case (OpGenerateExpression node)
  with a show ?thesis
    using generate_expression_binary_stack_offset(1)[of g node] by (auto intro!: exI[of _ 0])
next
  case (OpGenerateLiteral node)
  with a show ?thesis using generate_literal_stack_offset[of g node] by (auto intro!: exI[of _ 0])
next
  case (OpGenerateBinary node)
  with a show ?thesis
    using generate_expression_binary_stack_offset(2)[of g node] by (auto intro!: exI[of _ 0])
next
  case (OpGenerateVariableDeclaration node)
  with a obtain r1 where d: "code_generator_generate_variable_declaration g node = Some (r1, g')"
    by auto
  from generate_variable_declaration_stack_offset[OF d]
  have "stack_offset g' = stack_offset g + 8 * of_nat 0 \<or> stack_offset g' = stack_offset g + 8 * of_nat 1"
    by (auto split: if_splits)
  with OpGenerateVariableDeclaration show ?thesis
    by (auto intro: exI[of _ 0] exI[of _ 1])
next
  case (OpGenerateProgram node)
  with a show ?thesis using generate_program_adds[of g node] by auto
next
  case OpAllocateRegister
  with a show ?thesis
    by (auto simp: code_generator_allocate_register_def split: option.splits intro!: exI[of _ 0])
next
  case (OpFreeRegister reg)
  with a show ?thesis by (auto simp: code_generator_free_register_def intro!: exI[of _ 0])
next
  case (OpError msg)
  with a show ?thesis by (auto simp: code_generator_error_def intro!: exI[of _ 0])
next
  case OpEmitPrologue
  with a show ?thesis using emit_prologue_stack_offset[of g] by (auto intro!: exI[of _ 0])
next
  case OpEmitEpilogue
  with a show ?thesis using emit_epilogue_stack_offset[of g] by (auto intro!: exI[of _ 0])
next
  case (OpEmitLabel l)
  with a show ?thesis
    by (auto simp: code_generator_emit_label_def split: option.splits intro!: exI[of _ 0])
next
  case (OpEmitInstruction ins ops)
  with a show ?thesis
    by (auto simp: code_generator_emit_instruction_def split: option.splits intro!: exI[of _ 0])
next
  case (OpEmitComment c)
  with a show ?thesis
    by (auto simp: code_generator_emit_comment_def split: option.splits intro!: exI[of _ 0])
next
  case (OpPushStack sz)
  with ns show ?thesis by simp
next
  case (OpPopStack sz)
  with np show ?thesis by simp
qed

text \<open>
  C8 (corrected). As stated the claim fails twice. \<open>code_generator_pop_stack\<close> subtracts its
  argument from the counter (and \<open>code_generator_push_stack\<close> adds its argument, which may be
  negative). And the counter is a C \<open>int\<close>: the \<open>+= 8\<close> of a declaration and the \<open>+= size\<close>
  of \<open>push_stack\<close> overflow once the sum exceeds \<open>INT_MAX\<close>, and the counter then reads
  negative. What holds: \<open>op_growth op\<close> being the bytes an operation can add (8 for a
  declaration, 8 for each declaration among the children of a program node, the size for
  \<open>push_stack\<close>, 0 otherwise), every generator operation other than \<open>pop_stack\<close>, and other
  than \<open>push_stack\<close> with a negative size, that starts with the counter at most
  \<open>INT_MAX - op_growth op\<close> leaves it where it was or higher, and at most \<open>op_growth op\<close>
  higher. A variable declaration that passes the NULL and node-kind checks adds 8 in
  32-bit arithmetic, whatever its initializer does, which is 8 more as a number when the
  counter is at most \<open>INT_MAX - 8\<close>. \<open>pop_stack\<close> subtracts its argument and \<open>push_stack\<close>
  adds its argument, in 32-bit arithmetic. Whatever the counter is, an operation other than
  \<open>push_stack\<close> and \<open>pop_stack\<close> adds 8 in 32-bit arithmetic for each of a number of
  declarations, no more of them than \<open>op_growth op\<close> counts: it never subtracts.
\<close>

theorem stack_offset_monotone_within_int_range:
  "(apply_gen_op op g = Some g' \<and> (\<forall>sz. op \<noteq> OpPopStack sz)
      \<and> (\<forall>sz. op = OpPushStack sz \<longrightarrow> 0 \<le> sint sz)
      \<and> sint (stack_offset g) + op_growth op \<le> INT_MAX
      \<longrightarrow> sint (stack_offset g) \<le> sint (stack_offset g')
        \<and> sint (stack_offset g') \<le> sint (stack_offset g) + op_growth op)
   \<and> (node_type n = NODE_VARIABLE_DECLARATION \<and> output_file g \<noteq> None
        \<and> code_generator_generate_variable_declaration g (Some n) = Some (r, g2)
      \<longrightarrow> stack_offset g2 = stack_offset g + 8
        \<and> (sint (stack_offset g) + 8 \<le> INT_MAX
             \<longrightarrow> sint (stack_offset g2) = sint (stack_offset g) + 8))
   \<and> (output_file g \<noteq> None
      \<longrightarrow> stack_offset (snd (code_generator_pop_stack g sz)) = stack_offset g - sz
        \<and> stack_offset (snd (code_generator_push_stack g sz)) = stack_offset g + sz)
   \<and> (apply_gen_op op g = Some g' \<and> (\<forall>sz. op \<noteq> OpPopStack sz) \<and> (\<forall>sz. op \<noteq> OpPushStack sz)
      \<longrightarrow> (\<exists>m. 8 * int m \<le> op_growth op \<and> stack_offset g' = stack_offset g + 8 * of_nat m))"
proof -
  have mono: "sint (stack_offset g) \<le> sint (stack_offset g')
        \<and> sint (stack_offset g') \<le> sint (stack_offset g) + op_growth op"
    if a: "apply_gen_op op g = Some g'" and np: "\<forall>sz. op \<noteq> OpPopStack sz"
      and ps: "\<forall>sz. op = OpPushStack sz \<longrightarrow> 0 \<le> sint sz"
      and room: "sint (stack_offset g) + op_growth op \<le> INT_MAX"
  proof (cases op)
    case (OpSetOutput f ok)
    with a show ?thesis using set_output_stack_offset[of g f ok] by auto
  next
    case (OpGenerate ast f ok)
    with a room show ?thesis using generate_stack_offset[of g ast f ok] by auto
  next
    case (OpGenerateExpression node)
    with a show ?thesis
      using generate_expression_binary_stack_offset(1)[of g node] by auto
  next
    case (OpGenerateLiteral node)
    with a show ?thesis using generate_literal_stack_offset[of g node] by auto
  next
    case (OpGenerateBinary node)
    with a show ?thesis
      using generate_expression_binary_stack_offset(2)[of g node] by auto
  next
    case (OpGenerateVariableDeclaration node)
    with a obtain r1 where d: "code_generator_generate_variable_declaration g node = Some (r1, g')"
      by auto
    from OpGenerateVariableDeclaration room have r8: "sint (stack_offset g) + 8 \<le> INT_MAX" by simp
    from generate_variable_declaration_stack_offset[OF d] sint_add_8[OF r8]
      OpGenerateVariableDeclaration
    show ?thesis by (auto split: if_splits)
  next
    case (OpGenerateProgram node)
    with a room show ?thesis using generate_program_stack_offset[of g node] by auto
  next
    case OpAllocateRegister
    with a show ?thesis
      by (auto simp: code_generator_allocate_register_def split: option.splits)
  next
    case (OpFreeRegister reg)
    with a show ?thesis by (auto simp: code_generator_free_register_def)
  next
    case (OpError msg)
    with a show ?thesis by (auto simp: code_generator_error_def)
  next
    case OpEmitPrologue
    with a show ?thesis using emit_prologue_stack_offset[of g] by auto
  next
    case OpEmitEpilogue
    with a show ?thesis using emit_epilogue_stack_offset[of g] by auto
  next
    case (OpEmitLabel l)
    with a show ?thesis
      by (auto simp: code_generator_emit_label_def split: option.splits)
  next
    case (OpEmitInstruction ins ops)
    with a show ?thesis
      by (auto simp: code_generator_emit_instruction_def split: option.splits)
  next
    case (OpEmitComment c)
    with a show ?thesis
      by (auto simp: code_generator_emit_comment_def split: option.splits)
  next
    case (OpPushStack sz)
    with ps have nn: "0 \<le> sint sz" by simp
    from OpPushStack room have "sint (stack_offset g) + sint sz \<le> INT_MAX" by simp
    from sint_add_nonneg[OF nn this] nn a OpPushStack show ?thesis
      by (auto simp: code_generator_push_stack_def)
  next
    case (OpPopStack sz)
    with np show ?thesis by simp
  qed
  have decl: "node_type n = NODE_VARIABLE_DECLARATION \<and> output_file g \<noteq> None
        \<and> code_generator_generate_variable_declaration g (Some n) = Some (r, g2)
      \<longrightarrow> stack_offset g2 = stack_offset g + 8
        \<and> (sint (stack_offset g) + 8 \<le> INT_MAX
             \<longrightarrow> sint (stack_offset g2) = sint (stack_offset g) + 8)"
    using generate_variable_declaration_stack_offset[of g "Some n" r g2] sint_add_8[of "stack_offset g"]
    by auto
  have pp: "output_file g \<noteq> None
      \<longrightarrow> stack_offset (snd (code_generator_pop_stack g sz)) = stack_offset g - sz
        \<and> stack_offset (snd (code_generator_push_stack g sz)) = stack_offset g + sz"
    by (simp add: code_generator_pop_stack_def code_generator_push_stack_def)
  have adds: "apply_gen_op op g = Some g' \<and> (\<forall>sz. op \<noteq> OpPopStack sz) \<and> (\<forall>sz. op \<noteq> OpPushStack sz)
      \<longrightarrow> (\<exists>m. 8 * int m \<le> op_growth op \<and> stack_offset g' = stack_offset g + 8 * of_nat m)"
    using op_adds[of op g g'] by blast
  show ?thesis using mono decl pp adds by blast
qed

theorem stack_offset_monotone_within_int_range_witness:
  "apply_gen_op (OpGenerateVariableDeclaration (Some declaration_of_x)) opened_generator
     = Some generator_after_declaration
   \<and> sint (stack_offset opened_generator) + op_growth (OpGenerateVariableDeclaration (Some declaration_of_x))
       \<le> INT_MAX
   \<and> sint (stack_offset opened_generator) = 0 \<and> sint (stack_offset generator_after_declaration) = 8
   \<and> sint (stack_offset (snd (code_generator_pop_stack generator_after_declaration 3))) = 5
   \<and> sint (stack_offset (snd (code_generator_push_stack generator_after_declaration 3))) = 11"
  using stack_offset_monotone_within_int_range
          [where op = "OpGenerateVariableDeclaration (Some declaration_of_x)"
             and g = opened_generator and g' = generator_after_declaration
             and n = declaration_of_x and r = CODEGEN_SUCCESS
             and ?g2.0 = generator_after_declaration and sz = 3]
        stack_offset_monotone_within_int_range
          [where g = generator_after_declaration and sz = 3]
  by (simp add: generator_after_declaration_def opened_generator_def declaration_of_x_def
      ast_node_create_variable_declaration_def code_generator_set_output_def
      code_generator_create_def code_generator_generate_variable_declaration_def
      declaration_initializer_def fprintf_out_def code_generator_pop_stack_def
      code_generator_push_stack_def INT_MAX_def)

theorem stack_offset_decreases_by_pop_and_by_overflow:
  "sint (stack_offset generator_after_declaration) = 8
   \<and> apply_gen_op (OpPopStack 8) generator_after_declaration
       = Some (snd (code_generator_pop_stack generator_after_declaration 8))
   \<and> fst (code_generator_pop_stack generator_after_declaration 8) = CODEGEN_SUCCESS
   \<and> sint (stack_offset (snd (code_generator_pop_stack generator_after_declaration 8))) = 0
   \<and> sint (2147483647 :: 32 word) = INT_MAX
   \<and> fst (code_generator_push_stack opened_generator 2147483647) = CODEGEN_SUCCESS
   \<and> sint (stack_offset (snd (code_generator_push_stack opened_generator 2147483647))) = INT_MAX
   \<and> map_option (\<lambda>x. (fst x, sint (stack_offset (snd x))))
        (code_generator_generate_variable_declaration
           (snd (code_generator_push_stack opened_generator 2147483647)) (Some declaration_of_x))
       = Some (CODEGEN_SUCCESS, - 2147483641)"
  by (simp add: generator_after_declaration_def opened_generator_def declaration_of_x_def
      ast_node_create_variable_declaration_def code_generator_set_output_def
      code_generator_create_def code_generator_generate_variable_declaration_def
      declaration_initializer_def fprintf_out_def code_generator_pop_stack_def
      code_generator_push_stack_def INT_MAX_def)

text \<open>
  C9. Generating the program for the node of \<open>5 + 3\<close> into a freshly opened output
  succeeds and writes the text of \<open>code_generator_emit_prologue\<close>, then the five lines of
  the expression (the left literal, the push of \<open>rax\<close>, the right literal, the pop into
  \<open>rbx\<close>, \<open>add rax, rbx\<close>), then the text of \<open>code_generator_emit_epilogue\<close>. Of the
  fourteen lines of that output exactly one contains \<open>add\<close>, and it comes after the push of
  \<open>rax\<close>.
\<close>

theorem five_plus_three_codegen:
  "code_generator_generate_program opened_generator (Some five_plus_three) =
     Some (CODEGEN_SUCCESS,
           opened_generator\<lparr>output_file := Some
             (written (snd (code_generator_emit_prologue opened_generator))
              @ ''    mov     rax, 5\<newline>''
              @ ''    push    rax\<newline>''
              @ ''    mov     rax, 3\<newline>''
              @ ''    pop     rbx\<newline>''
              @ ''    add     rax, rbx\<newline>''
              @ written (snd (code_generator_emit_epilogue opened_generator)))\<rparr>)
   \<and> split_lines
        (written (snd (code_generator_emit_prologue opened_generator))
         @ ''    mov     rax, 5\<newline>''
         @ ''    push    rax\<newline>''
         @ ''    mov     rax, 3\<newline>''
         @ ''    pop     rbx\<newline>''
         @ ''    add     rax, rbx\<newline>''
         @ written (snd (code_generator_emit_epilogue opened_generator)))
     = [''    .section .data'', ''    .section .text'', ''    .global _main'', ''_main:'',
        ''    push    rbp'', ''    mov     rbp, rsp'',
        ''    mov     rax, 5'', ''    push    rax'', ''    mov     rax, 3'', ''    pop     rbx'',
        ''    add     rax, rbx'',
        ''    mov     rsp, rbp'', ''    pop     rbp'', ''    ret'']
   \<and> filter (sublist ''add'')
        [''    .section .data'', ''    .section .text'', ''    .global _main'', ''_main:'',
         ''    push    rbp'', ''    mov     rbp, rsp'',
         ''    mov     rax, 5'', ''    push    rax'', ''    mov     rax, 3'', ''    pop     rbx'',
         ''    add     rax, rbx'',
         ''    mov     rsp, rbp'', ''    pop     rbp'', ''    ret'']
     = [''    add     rax, rbx'']"
  by (simp add: opened_generator_def five_plus_three_def code_generator_generate_program_def
      code_generator_set_output_def code_generator_create_def code_generator_emit_prologue_def
      code_generator_emit_epilogue_def fprintf_out_def written_def
      ast_node_create_binary_def ast_node_create_literal_int_def token_create_def
      code_generator_generate_literal_def token_has_type_def literal_int_value_def
      show_int_def digit_char_def emit_binary_operation_def split_lines_def sublist_code)

section \<open>Properties of the scope stack and of symbol lookup\<close>

lemma heap_get_append:
  "heap_get (h @ [x]) a = (if a < length h then heap_get h a else if a = length h then x else None)"
  by (simp add: heap_get_def nth_append)

lemma heap_get_update:
  "heap_get (h[a := v]) b = (if b = a \<and> a < length h then v else heap_get h b)"
  by (simp add: heap_get_def)

lemma heap_get_SomeD: "heap_get h a = Some t \<Longrightarrow> a < length h"
  by (simp add: heap_get_def split: if_splits)

lemma chain_ok_cong_heap:
  "chain_ok h prev lvl as \<Longrightarrow> (\<And>a. a \<in> set as \<Longrightarrow> heap_get h' a = heap_get h a)
   \<Longrightarrow> chain_ok h' prev lvl as"
  by (induction as arbitrary: prev lvl) (auto split: option.splits)

lemma chain_ok_snoc:
  "chain_ok h prev lvl (as @ [a]) =
     (chain_ok h prev lvl as \<and>
      (case heap_get h a of None \<Rightarrow> False
       | Some t \<Rightarrow> parent t = (if as = [] then prev else Some (last as))
                   \<and> scope_level t = lvl + int (length as)))"
  by (induction as arbitrary: prev lvl) (auto split: option.splits)

lemma chain_ok_live: "chain_ok h prev lvl as \<Longrightarrow> a \<in> set as \<Longrightarrow> \<exists>t. heap_get h a = Some t"
  by (induction as arbitrary: prev lvl) (auto split: option.splits)

lemma scope_stack_ok_create:
  "scope_stack_ok (semantic_analyzer_create h0)"
  by (simp add: scope_stack_ok_def semantic_analyzer_create_def symbol_table_create_def heap_get_append)

lemma enter_scope_ok:
  assumes "scope_stack_ok (h, an)"
  shows "\<exists>cur. heap_get h (current_scope an) = Some cur \<and>
           semantic_analyzer_enter_scope (h, an) =
             Some (h @ [Some \<lparr>symbols = [], capacity = 16, parent = Some (current_scope an),
                              scope_level = scope_level cur + 1\<rparr>],
                   an\<lparr>scope_stack_capacity :=
                         (if scope_stack_capacity an \<le> length (scope_stack an)
                          then scope_stack_capacity an * 2 else scope_stack_capacity an),
                       scope_stack := scope_stack an @ [length h],
                       current_scope := length h\<rparr>)"
proof -
  from assms have ne: "scope_stack an \<noteq> []" and cur: "current_scope an = last (scope_stack an)"
    and ch: "chain_ok h None 0 (scope_stack an)"
    by (simp_all add: scope_stack_ok_def)
  from ne cur have "current_scope an \<in> set (scope_stack an)" by simp
  with ch obtain t where t: "heap_get h (current_scope an) = Some t"
    using chain_ok_live by blast
  show ?thesis
    using t by (simp add: semantic_analyzer_enter_scope_def symbol_table_create_def heap_get_append)
qed

lemma enter_scope_preserves:
  assumes "scope_stack_ok (h, an)" and "semantic_analyzer_enter_scope (h, an) = Some (h', an')"
  shows "scope_stack_ok (h', an') \<and> hd (scope_stack an') = hd (scope_stack an)"
proof -
  from assms(1) have ne: "scope_stack an \<noteq> []" and cur: "current_scope an = last (scope_stack an)"
    and di: "distinct (scope_stack an)" and ch: "chain_ok h None 0 (scope_stack an)"
    by (simp_all add: scope_stack_ok_def)
  from enter_scope_ok[OF assms(1)] assms(2) obtain c where
    c: "heap_get h (current_scope an) = Some c"
    and h': "h' = h @ [Some \<lparr>symbols = [], capacity = 16, parent = Some (current_scope an),
                              scope_level = scope_level c + 1\<rparr>]"
    and st: "scope_stack an' = scope_stack an @ [length h]" and cu: "current_scope an' = length h"
    by auto
  have lt: "\<And>a. a \<in> set (scope_stack an) \<Longrightarrow> a < length h"
    using chain_ok_live[OF ch] heap_get_SomeD by blast
  have lvl: "scope_level c = int (length (scope_stack an)) - 1"
  proof -
    obtain bs where bs: "scope_stack an = bs @ [current_scope an]"
      using ne cur by (metis append_butlast_last_id)
    with ch c show ?thesis by (simp add: chain_ok_snoc)
  qed
  have ch1: "chain_ok h' None 0 (scope_stack an)"
    by (rule chain_ok_cong_heap[OF ch]) (use lt h' in \<open>simp add: heap_get_append\<close>)
  have "chain_ok h' None 0 (scope_stack an @ [length h])"
    using ch1 ne cur lvl by (simp add: chain_ok_snoc h' heap_get_append)
  moreover have "length h \<notin> set (scope_stack an)" using lt by blast
  ultimately show ?thesis using st cu di ne by (simp add: scope_stack_ok_def)
qed

lemma exit_scope_top:
  assumes "scope_stack_ok (h, an)" and "1 < length (scope_stack an)"
  shows "\<exists>cur. heap_get h (current_scope an) = Some cur \<and>
           parent cur = Some (last (butlast (scope_stack an))) \<and>
           semantic_analyzer_exit_scope (h, an) =
             Some (h[current_scope an := None],
                   an\<lparr>scope_stack := butlast (scope_stack an),
                       current_scope := last (butlast (scope_stack an))\<rparr>)"
proof -
  from assms(1) have ne: "scope_stack an \<noteq> []" and cur: "current_scope an = last (scope_stack an)"
    and ch: "chain_ok h None 0 (scope_stack an)"
    by (simp_all add: scope_stack_ok_def)
  have bs: "scope_stack an = butlast (scope_stack an) @ [current_scope an]"
    using ne cur by simp
  have bne: "butlast (scope_stack an) \<noteq> []" using assms(2)
    by (cases "scope_stack an" rule: rev_cases) auto
  from ch bs have "chain_ok h None 0 (butlast (scope_stack an) @ [current_scope an])" by simp
  then obtain t where t: "heap_get h (current_scope an) = Some t"
    and pt: "parent t = Some (last (butlast (scope_stack an)))"
    using bne by (auto simp: chain_ok_snoc split: option.splits)
  show ?thesis using t pt assms(2)
    by (simp add: semantic_analyzer_exit_scope_def symbol_table_free_def)
qed

lemma exit_scope_bottom:
  "length (scope_stack an) \<le> 1 \<Longrightarrow> semantic_analyzer_exit_scope (h, an) = Some (h, an)"
  by (simp add: semantic_analyzer_exit_scope_def)

lemma exit_scope_preserves:
  assumes "scope_stack_ok (h, an)" and "semantic_analyzer_exit_scope (h, an) = Some (h', an')"
  shows "scope_stack_ok (h', an') \<and> hd (scope_stack an') = hd (scope_stack an)"
proof (cases "1 < length (scope_stack an)")
  case False
  then show ?thesis using assms exit_scope_bottom[of an h] by simp
next
  case True
  from assms(1) have ne: "scope_stack an \<noteq> []" and cur: "current_scope an = last (scope_stack an)"
    and di: "distinct (scope_stack an)" and ch: "chain_ok h None 0 (scope_stack an)"
    by (simp_all add: scope_stack_ok_def)
  from exit_scope_top[OF assms(1) True] assms(2)
  have h': "h' = h[current_scope an := None]"
    and st: "scope_stack an' = butlast (scope_stack an)"
    and cu: "current_scope an' = last (butlast (scope_stack an))"
    by auto
  have bs: "scope_stack an = butlast (scope_stack an) @ [current_scope an]"
    using ne cur by simp
  have bne: "butlast (scope_stack an) \<noteq> []" using True
    by (cases "scope_stack an" rule: rev_cases) auto
  have notin: "current_scope an \<notin> set (butlast (scope_stack an))"
    using di bs by (metis distinct_append disjoint_iff list.set_intros(1) distinct.simps(2) not_distinct_conv_prefix)
  have ch0: "chain_ok h None 0 (butlast (scope_stack an))"
    using ch bs chain_ok_snoc[of h None 0 "butlast (scope_stack an)" "current_scope an"] by simp
  have "chain_ok h' None 0 (butlast (scope_stack an))"
    by (rule chain_ok_cong_heap[OF ch0]) (use notin h' in \<open>auto simp: heap_get_update\<close>)
  moreover have "distinct (butlast (scope_stack an))" using di by (rule distinct_butlast)
  moreover have "hd (butlast (scope_stack an)) = hd (scope_stack an)"
    using bne by (metis bs hd_append2)
  ultimately show ?thesis using st cu bne by (simp add: scope_stack_ok_def)
qed

lemma run_scope_ops_ok:
  "scope_stack_ok st \<Longrightarrow>
   \<exists>h an. run_scope_ops ops st = Some (h, an) \<and> scope_stack_ok (h, an)
          \<and> hd (scope_stack an) = hd (scope_stack (snd st))"
proof (induction ops arbitrary: st)
  case Nil
  then show ?case by (cases st) simp
next
  case (Cons op ops)
  obtain h an where st: "st = (h, an)" by (cases st)
  show ?case
  proof (cases op)
    case Enter
    from enter_scope_ok[of h an] Cons.prems st obtain st1 where
      e: "semantic_analyzer_enter_scope (h, an) = Some st1" by auto
    obtain h1 an1 where st1: "st1 = (h1, an1)" by (cases st1)
    from enter_scope_preserves[of h an h1 an1] Cons.prems st e st1
    have ok1: "scope_stack_ok st1" and hd1: "hd (scope_stack an1) = hd (scope_stack an)" by auto
    from Cons.IH[OF ok1] show ?thesis using Enter e st st1 hd1 by auto
  next
    case Exit
    have "\<exists>st1. semantic_analyzer_exit_scope (h, an) = Some st1"
      using exit_scope_top[of h an] exit_scope_bottom[of an h] Cons.prems st
      by (cases "1 < length (scope_stack an)") auto
    then obtain st1 where e: "semantic_analyzer_exit_scope (h, an) = Some st1" by auto
    obtain h1 an1 where st1: "st1 = (h1, an1)" by (cases st1)
    from exit_scope_preserves[of h an h1 an1] Cons.prems st e st1
    have ok1: "scope_stack_ok st1" and hd1: "hd (scope_stack an1) = hd (scope_stack an)" by auto
    from Cons.IH[OF ok1] show ?thesis using Exit e st st1 hd1 by auto
  qed
qed






lemma lookup_local_then_global:
  "symbol_table_lookup h table nm =
     (case symbol_table_lookup_local h table nm of
        None \<Rightarrow> None
      | Some (Some found) \<Rightarrow> Some (Some found)
      | Some None \<Rightarrow> symbol_table_lookup_global h table nm)"
  by (subst symbol_table_lookup.simps)
     (simp add: symbol_table_lookup_local_def symbol_table_lookup_global_def split: option.splits)


text \<open>
  C1 (the code departs from the claim). The claim: a binary node with operator \<open>==\<close> has
  type Bool for any pair of operand types, two Int operands included. The code tests
  "both operand types equal and Int or Float" before it looks at the operator, so the node
  for \<open>1 == 2\<close> gets type Int; the comment in front of the comparison test reads "For
  comparison operations, always return bool".
\<close>

theorem equality_of_two_ints_is_typed_int:
  "ast_node_get_type h
     (Some (ast_node_create_binary (Some (token_create TOKEN_EQUAL ''=='' 1 3))
        (Some (ast_node_create_literal_int
                 (Some (token_create_with_literal TOKEN_INTEGER_LITERAL ''1'' 1 1)) 1))
        (Some (ast_node_create_literal_int
                 (Some (token_create_with_literal TOKEN_INTEGER_LITERAL ''2'' 1 6)) 2))
        (Some ''==''))) an
   = Some TYPE_INT"
  by (simp add: ast_node_create_binary_def ast_node_create_literal_int_def
      token_create_with_literal_def token_create_def token_has_type_def binary_result_type_def)

text \<open>
  C6. Whatever sequence of \<open>enter_scope\<close> and \<open>exit_scope\<close> calls is run on a freshly
  created analyzer, the run never follows a dead pointer and ends in a state where
  \<^item> the stack is a chain: the table at index i is live, has level i and has the table at
    index i - 1 as parent (none at index 0), the current scope is the top entry, and the
    bottom entry is still the global table made by \<open>semantic_analyzer_create\<close>;
  \<^item> \<open>enter_scope\<close> pushes a fresh, empty table whose parent is the current table and
    whose level is one more, and leaves every other table as it was;
  \<^item> \<open>exit_scope\<close> at depth 0 (one entry on the stack) changes nothing; otherwise it
    pops the top entry, frees that table, makes its parent the current scope and leaves
    every other table as it was.
\<close>

theorem scope_enter_exit_discipline:
  "case run_scope_ops ops (semantic_analyzer_create hs) of
     None \<Rightarrow> False
   | Some (h, an) \<Rightarrow>
       scope_stack_ok (h, an) \<and> hd (scope_stack an) = length hs \<and>
       (\<exists>cur. heap_get h (current_scope an) = Some cur \<and>
          scope_level cur = int (length (scope_stack an)) - 1 \<and>
          (\<exists>h' an'. semantic_analyzer_enter_scope (h, an) = Some (h', an') \<and>
             scope_stack an' = scope_stack an @ [current_scope an'] \<and>
             current_scope an' \<notin> set (scope_stack an) \<and>
             heap_get h' (current_scope an') =
               Some \<lparr>symbols = [], capacity = 16, parent = Some (current_scope an),
                     scope_level = scope_level cur + 1\<rparr> \<and>
             (\<forall>a. a \<noteq> current_scope an' \<longrightarrow> heap_get h' a = heap_get h a)) \<and>
          (if length (scope_stack an) \<le> 1
           then semantic_analyzer_exit_scope (h, an) = Some (h, an)
           else (\<exists>h' an'. semantic_analyzer_exit_scope (h, an) = Some (h', an') \<and>
                   scope_stack an' = butlast (scope_stack an) \<and>
                   heap_get h' (current_scope an) = None \<and>
                   Some (current_scope an') = parent cur \<and>
                   (\<forall>a. a \<noteq> current_scope an \<longrightarrow> heap_get h' a = heap_get h a))))"
proof -
  have ok0: "scope_stack_ok (semantic_analyzer_create hs)" by (rule scope_stack_ok_create)
  have hd0: "hd (scope_stack (snd (semantic_analyzer_create hs))) = length hs"
    by (simp add: semantic_analyzer_create_def symbol_table_create_def)
  from run_scope_ops_ok[OF ok0, of ops] hd0 obtain h an where
    run: "run_scope_ops ops (semantic_analyzer_create hs) = Some (h, an)"
    and ok: "scope_stack_ok (h, an)" and hdg: "hd (scope_stack an) = length hs"
    by auto
  from ok have ne: "scope_stack an \<noteq> []" and cur: "current_scope an = last (scope_stack an)"
    and ch: "chain_ok h None 0 (scope_stack an)"
    by (simp_all add: scope_stack_ok_def)
  from enter_scope_ok[OF ok] obtain c where
    c: "heap_get h (current_scope an) = Some c"
    and en: "semantic_analyzer_enter_scope (h, an) =
             Some (h @ [Some \<lparr>symbols = [], capacity = 16, parent = Some (current_scope an),
                              scope_level = scope_level c + 1\<rparr>],
                   an\<lparr>scope_stack_capacity :=
                         (if scope_stack_capacity an \<le> length (scope_stack an)
                          then scope_stack_capacity an * 2 else scope_stack_capacity an),
                       scope_stack := scope_stack an @ [length h],
                       current_scope := length h\<rparr>)"
    by auto
  have lvl: "scope_level c = int (length (scope_stack an)) - 1"
  proof -
    have "scope_stack an = butlast (scope_stack an) @ [current_scope an]"
      using ne cur by simp
    then have "chain_ok h None 0 (butlast (scope_stack an) @ [current_scope an])"
      using ch by simp
    moreover have "0 < length (scope_stack an)" using ne by simp
    ultimately show ?thesis using c by (auto simp: chain_ok_snoc of_nat_diff Suc_le_eq)
  qed
  have fresh: "length h \<notin> set (scope_stack an)"
    using chain_ok_live[OF ch] heap_get_SomeD by blast
  have enter_part:
    "\<exists>h' an'. semantic_analyzer_enter_scope (h, an) = Some (h', an') \<and>
             scope_stack an' = scope_stack an @ [current_scope an'] \<and>
             current_scope an' \<notin> set (scope_stack an) \<and>
             heap_get h' (current_scope an') =
               Some \<lparr>symbols = [], capacity = 16, parent = Some (current_scope an),
                     scope_level = scope_level c + 1\<rparr> \<and>
             (\<forall>a. a \<noteq> current_scope an' \<longrightarrow> heap_get h' a = heap_get h a)"
    using en fresh by (auto simp: heap_get_append heap_get_def nth_append)
  have exit_part:
    "if length (scope_stack an) \<le> 1
     then semantic_analyzer_exit_scope (h, an) = Some (h, an)
     else (\<exists>h' an'. semantic_analyzer_exit_scope (h, an) = Some (h', an') \<and>
             scope_stack an' = butlast (scope_stack an) \<and>
             heap_get h' (current_scope an) = None \<and>
             Some (current_scope an') = parent c \<and>
             (\<forall>a. a \<noteq> current_scope an \<longrightarrow> heap_get h' a = heap_get h a))"
  proof (cases "length (scope_stack an) \<le> 1")
    case True
    then show ?thesis by (simp add: exit_scope_bottom)
  next
    case False
    then have gt: "1 < length (scope_stack an)" by simp
    from exit_scope_top[OF ok gt] c show ?thesis
      using False by (auto simp: heap_get_update heap_get_def)
  qed
  show ?thesis using run ok hdg c lvl enter_part exit_part by simp
qed

theorem scope_enter_exit_discipline_witness:
  "run_scope_ops [Enter] (semantic_analyzer_create []) =
     Some ([Some \<lparr>symbols = [], capacity = 16, parent = None, scope_level = 0\<rparr>,
            Some \<lparr>symbols = [], capacity = 16, parent = Some 0, scope_level = 1\<rparr>],
           \<lparr>current_scope = 1, a_had_error = False, a_last_error = None,
            scope_stack = [0, 1], scope_stack_capacity = 16\<rparr>)
   \<and> semantic_analyzer_exit_scope
        ([Some \<lparr>symbols = [], capacity = 16, parent = None, scope_level = 0\<rparr>,
          Some \<lparr>symbols = [], capacity = 16, parent = Some 0, scope_level = 1\<rparr>],
         \<lparr>current_scope = 1, a_had_error = False, a_last_error = None,
          scope_stack = [0, 1], scope_stack_capacity = 16\<rparr>)
     = Some ([Some \<lparr>symbols = [], capacity = 16, parent = None, scope_level = 0\<rparr>, None],
             \<lparr>current_scope = 0, a_had_error = False, a_last_error = None,
              scope_stack = [0], scope_stack_capacity = 16\<rparr>)
   \<and> run_scope_ops [Exit] (semantic_analyzer_create []) = Some (semantic_analyzer_create [])
   \<and> semantic_analyzer_exit_scope (semantic_analyzer_create []) = Some (semantic_analyzer_create [])"
  using scope_enter_exit_discipline [where ops = "[Enter]" and hs = "[]"]
        scope_enter_exit_discipline [where ops = "[Exit]" and hs = "[]"]
  by (simp add: semantic_analyzer_create_def symbol_table_create_def
      semantic_analyzer_enter_scope_def semantic_analyzer_exit_scope_def
      symbol_table_free_def heap_get_def scope_stack_ok_def)





section \<open>Properties of the tokenizer\<close>

text \<open>
  Integer literals outside the range of \<open>int\<close>: the stored value is the low 32 bits of the
  number, or of \<open>LONG_MAX\<close> when the number exceeds that.
\<close>

lemma atoi_out_of_range:
  "sint (atoi ''2147483647'') = 2147483647
   \<and> sint (atoi ''2147483648'') = - 2147483648
   \<and> sint (atoi ''99999999999999999999'') = - 1"
  by code_simp

text \<open>
  A lexer as \<open>lexer_create\<close> and \<open>advance\<close> leave it: the position is inside the buffer,
  \<open>current_char\<close> is the character at the position, and the text has no NUL inside.
\<close>

definition lexer_ok :: "Lexer \<Rightarrow> bool" where
  "lexer_ok l =
     (position l \<le> length (source l) \<and> current_char l = source_at (source l) (position l)
      \<and> NUL \<notin> set (source l))"











lemma lexer_ok_error_update [simp]:
  "lexer_ok (l\<lparr>l_had_error := e, l_last_error := x\<rparr>) = lexer_ok l"
  by (simp add: lexer_ok_def)































section \<open>Properties of the parser\<close>


text \<open>
  The tree with an operator at the root, written with the constructors of the node type and
  not with the parser's functions: a binary-expression node that carries the operator token,
  has \<open>left\<close> as its left operand and \<open>right\<close> as its right operand, and the operator's text
  as its operator string. The child list is empty: \<open>ast_node_create_binary\<close> stores its
  operands in the data union only.
\<close>

definition binary_tree :: "Token \<Rightarrow> ASTNode \<Rightarrow> ASTNode \<Rightarrow> ASTNode" where
  "binary_tree op left right =
     ASTNode NODE_BINARY_EXPRESSION (Some op)
       (BinaryData (Some left) (Some right) (Some (lexeme op))) []"


fun left_nested :: "ASTNode \<Rightarrow> (Token \<times> Token \<times> ASTNode) list \<Rightarrow> ASTNode" where
  "left_nested left [] = left"
| "left_nested left ((op, a, na) # rest) = left_nested (binary_tree op left na) rest"




lemma binary_tree_type [simp]: "node_type (binary_tree op l r) = NODE_BINARY_EXPRESSION"
  by (simp add: binary_tree_def)


lemma left_nested_not_error:
  "node_type left \<noteq> NODE_ERROR \<Longrightarrow> node_type (left_nested left pairs) \<noteq> NODE_ERROR"
  by (induction left pairs rule: left_nested.induct) simp_all











text \<open>
  C3 (the code departs from the claim). The claim: \<open>=\<close> is a binary operator of
  precedence 1 and \<open>a = b\<close> is folded into a binary node with operator text \<open>=\<close>. In
  the code \<open>parser_get_precedence\<close> gives \<open>TOKEN_ASSIGN\<close> precedence 1, but
  \<open>parser_is_binary_operator\<close> does not list it, so the loop stops in front of \<open>=\<close>:
  parsing \<open>x = 5\<close> returns the identifier node of \<open>x\<close>, leaves \<open>=\<close> as the current token
  and flags no error.
\<close>

theorem assignment_is_not_a_binary_operator:
  "\<not> parser_is_binary_operator TOKEN_ASSIGN \<and> parser_get_precedence TOKEN_ASSIGN = 1
   \<and> parser_parse (parser_create (lexer_create ''x = 5'')) =
       Some (ast_node_create_identifier (Some (token_create TOKEN_IDENTIFIER ''x'' 1 1)) (Some ''x''),
             (parser_create (lexer_create ''x = 5''))
               \<lparr>lexer := (lexer_create ''x = 5'')
                           \<lparr>position := 3, l_column := 4, current_char := CHR '' ''\<rparr>,
                current_token := Some (token_create TOKEN_ASSIGN ''='' 1 3)\<rparr>)"
  by code_simp




lemma syntax_error_lexer [simp]: "lexer (syntax_error p msg tok) = lexer p"
  by (simp add: syntax_error_def)



text \<open>
  Nested parentheses: the text of \<open>k\<close> opening parentheses and a 1. Each parenthesis adds
  three calls to the stack.
\<close>

definition nested :: "nat \<Rightarrow> string" where
  "nested k = replicate k CHR ''('' @ ''1''"















lemma length_nested [simp]: "length (nested k) = Suc k"
  by (simp add: nested_def)

















section \<open>Peeking and unterminated string literals\<close>

text \<open>No tokenizer function writes to the source buffer.\<close>

lemma skip_whitespace_source:
  "skip_whitespace l = Some l' \<Longrightarrow> source l' = source l"
proof (induction l rule: skip_whitespace.induct)
  case (1 l)
  show ?case
  proof (cases "current_char l \<noteq> NUL
         \<and> (current_char l = CHR '' '' \<or> current_char l = CHR 0x09 \<or> current_char l = CHR 0x0D)")
    case True
    with "1.prems" obtain l1 where a: "advance l = Some l1" and s: "skip_whitespace l1 = Some l'"
      by (subst (asm) skip_whitespace.simps) (auto split: option.splits)
    from "1.IH"[OF True a s] advance_source[OF a] show ?thesis by simp
  next
    case False
    with "1.prems" show ?thesis by (subst (asm) skip_whitespace.simps) auto
  qed
qed

lemma read_identifier_loop_source:
  "read_identifier_loop l b = Some (lx, l') \<Longrightarrow> source l' = source l"
proof (induction l b rule: read_identifier_loop.induct)
  case (1 l b)
  show ?case
  proof (cases "current_char l \<noteq> NUL \<and> (isalnum (current_char l) \<or> current_char l = CHR ''_'')")
    case True
    with "1.prems" obtain l1 where a: "advance l = Some l1"
      and s: "read_identifier_loop l1 (b @ [current_char l]) = Some (lx, l')"
      by (subst (asm) read_identifier_loop.simps) (auto split: option.splits)
    from "1.IH"[OF True a s] advance_source[OF a] show ?thesis by simp
  next
    case False
    with "1.prems" show ?thesis by (subst (asm) read_identifier_loop.simps) auto
  qed
qed

lemma read_number_loop_source:
  "read_number_loop l b d = Some (lx, d', l') \<Longrightarrow> source l' = source l"
proof (induction l b d rule: read_number_loop.induct)
  case (1 l b d)
  show ?case
  proof (cases "current_char l \<noteq> NUL \<and> isdigit (current_char l)")
    case True
    with "1.prems" obtain l1 where a: "advance l = Some l1"
      and s: "read_number_loop l1 (b @ [current_char l]) d = Some (lx, d', l')"
      by (subst (asm) read_number_loop.simps) (auto split: option.splits)
    from "1.IH"(1)[OF _ _ a s] True advance_source[OF a] show ?thesis by simp
  next
    case False
    show ?thesis
    proof (cases "current_char l \<noteq> NUL \<and> current_char l = CHR ''.'' \<and> \<not> d")
      case True
      with False "1.prems" obtain l1 where a: "advance l = Some l1"
        and s: "read_number_loop l1 (b @ [current_char l]) True = Some (lx, d', l')"
        by (subst (asm) read_number_loop.simps) (auto split: option.splits)
      from "1.IH"(2)[OF _ _ _ a s] True False advance_source[OF a] show ?thesis
        by (auto simp: NUL_def isdigit_def)
    next
      case F2: False
      with False "1.prems" show ?thesis by (subst (asm) read_number_loop.simps) (auto split: if_splits)
    qed
  qed
qed

lemma read_string_loop_source:
  "read_string_loop l b = Some (c, l') \<Longrightarrow> source l' = source l"
proof (induction l b rule: read_string_loop.induct)
  case (1 l b)
  show ?case
  proof (cases "current_char l \<noteq> NUL \<and> current_char l \<noteq> dquote")
    case False
    with "1.prems" show ?thesis by (subst (asm) read_string_loop.simps) auto
  next
    case True
    show ?thesis
    proof (cases "current_char l = backslash")
      case bs: True
      with True "1.prems" obtain l1 l2 where a1: "advance l = Some l1" and a2: "advance l1 = Some l2"
        and s: "read_string_loop l2
                  (if current_char l1 \<noteq> NUL then b @ [string_escape (current_char l1)] else b)
                = Some (c, l')"
        by (subst (asm) read_string_loop.simps) (auto split: option.splits)
      from "1.IH"(1)[OF True bs a1 a2 s] advance_source[OF a1] advance_source[OF a2] show ?thesis by simp
    next
      case nbs: False
      with True "1.prems" obtain l2 where a: "advance l = Some l2"
        and s: "read_string_loop l2 (b @ [current_char l]) = Some (c, l')"
        by (subst (asm) read_string_loop.simps) (auto split: option.splits)
      from "1.IH"(2)[OF True nbs a s] advance_source[OF a] show ?thesis by simp
    qed
  qed
qed

lemma read_identifier_source: "read_identifier l = Some (t, l') \<Longrightarrow> source l' = source l"
  by (auto simp: read_identifier_def split: option.splits dest: read_identifier_loop_source)

lemma read_number_source: "read_number l = Some (t, l') \<Longrightarrow> source l' = source l"
  by (auto simp: read_number_def split: option.splits dest: read_number_loop_source)

lemma read_string_source:
  assumes "read_string l = Some (t, l')"
  shows "source l' = source l"
proof -
  from assms obtain l1 c l2 where a: "advance l = Some l1"
    and s: "read_string_loop l1 [] = Some (c, l2)"
    and e: "(if current_char l2 = dquote then advance l2
             else Some (l2\<lparr>l_had_error := True,
                           l_last_error := Some (error_create ERROR_LEXICAL ''Unterminated string literal''
                                              (l_line l) (l_column l) None)\<rparr>)) = Some l'"
    by (auto simp: read_string_def split: option.splits)
  from e have "source l' = source l2"
    by (auto split: if_splits dest: advance_source)
  with read_string_loop_source[OF s] advance_source[OF a] show ?thesis by simp
qed

lemma read_char_source:
  assumes "read_char l = Some (t, l')"
  shows "source l' = source l"
  using assms
  by (auto simp: read_char_def unterminated_char_def split: option.splits if_splits
           dest!: advance_source)

lemma advance_once_source: "advance_once l ty lx = Some (t, l') \<Longrightarrow> source l' = source l"
  by (auto simp: advance_once_def split: option.splits dest!: advance_source)

lemma advance_twice_source: "advance_twice l ty lx = Some (t, l') \<Longrightarrow> source l' = source l"
  by (auto simp: advance_twice_def split: option.splits dest!: advance_source)

lemma read_operator_source:
  assumes "read_operator l = Some (t, l')"
  shows "source l' = source l"
  using assms
  by (auto simp: read_operator_def Let_def split: option.splits if_splits
           dest: advance_once_source advance_twice_source)

lemma lexer_next_token_source:
  assumes "lexer_next_token l = Some (t, l')"
  shows "source l' = source l"
proof (cases "current_char l = NUL")
  case True
  with assms show ?thesis by (auto simp: lexer_next_token_def)
next
  case False
  with assms obtain l1 where s: "skip_whitespace l = Some l1"
    by (auto simp: lexer_next_token_def split: option.splits)
  from assms False s have
    r: "(if current_char l1 = CHR 0x0A then advance_once l1 TOKEN_NEWLINE [CHR 0x0A]
             else if current_char l1 = NUL then
               Some (token_create TOKEN_EOF [] (l_line l1) (l_column l1), l1)
             else if isalpha (current_char l1) \<or> current_char l1 = CHR ''_'' then read_identifier l1
             else if isdigit (current_char l1) then read_number l1
             else if current_char l1 = dquote then read_string l1
             else if current_char l1 = squote then read_char l1
             else read_operator l1) = Some (t, l')"
    by (simp add: lexer_next_token_def)
  then have "source l' = source l1"
    by (auto split: if_splits dest: advance_once_source read_identifier_source read_number_source
          read_string_source read_char_source read_operator_source)
  with skip_whitespace_source[OF s] show ?thesis by simp
qed

text \<open>
  C10 (confirmed).  lexer_peek_token restores position, line, column and current character to
  their values before the peek, so that the lexer after a peek differs from the lexer before it
  at most in the error flag and the retained diagnostic, and these two are the ones that
  lexer_next_token leaves.  Peeking at the unterminated string literal of the source text
  consisting of a double quote and abc returns the string token and leaves the flag set and the
  Lexical diagnostic retained, with the cursor still on the opening quote.
\<close>

theorem peek_restores_cursor_but_keeps_error_state:
  "(lexer_peek_token l = Some (token, l') \<longrightarrow>
      (\<exists>l''. lexer_next_token l = Some (token, l'')
         \<and> l' = l\<lparr>l_had_error := l_had_error l'', l_last_error := l_last_error l''\<rparr>)
      \<and> position l' = position l \<and> l_line l' = l_line l \<and> l_column l' = l_column l
      \<and> current_char l' = current_char l)
   \<and> lexer_peek_token (lexer_create (dquote # ''abc'')) =
       Some ((token_create TOKEN_STRING_LITERAL (dquote # ''abc'' @ [dquote]) 1 1)
               \<lparr>literal := StringLiteral ''abc''\<rparr>,
             (lexer_create (dquote # ''abc''))
               \<lparr>l_had_error := True,
                l_last_error := Some (error_create ERROR_LEXICAL ''Unterminated string literal''
                                        1 1 None)\<rparr>)"
proof (intro conjI impI)
  assume h: "lexer_peek_token l = Some (token, l')"
  then obtain l'' where n: "lexer_next_token l = Some (token, l'')"
    and e: "l' = l''\<lparr>position := position l, l_line := l_line l, l_column := l_column l,
                   current_char := current_char l\<rparr>"
    by (auto simp: lexer_peek_token_def split: option.splits)
  from lexer_next_token_source[OF n] e
  have "l' = l\<lparr>l_had_error := l_had_error l'', l_last_error := l_last_error l''\<rparr>"
    by simp
  with n show "\<exists>l''. lexer_next_token l = Some (token, l'')
         \<and> l' = l\<lparr>l_had_error := l_had_error l'', l_last_error := l_last_error l''\<rparr>" by blast
  from e show "position l' = position l" "l_line l' = l_line l" "l_column l' = l_column l"
    "current_char l' = current_char l" by simp_all
next
  show "lexer_peek_token (lexer_create (dquote # ''abc'')) =
       Some ((token_create TOKEN_STRING_LITERAL (dquote # ''abc'' @ [dquote]) 1 1)
               \<lparr>literal := StringLiteral ''abc''\<rparr>,
             (lexer_create (dquote # ''abc''))
               \<lparr>l_had_error := True,
                l_last_error := Some (error_create ERROR_LEXICAL ''Unterminated string literal''
                                        1 1 None)\<rparr>)"
    by code_simp
qed

theorem peek_restores_cursor_but_keeps_error_state_witness:
  "lexer_peek_token (lexer_create (dquote # ''abc'')) =
       Some ((token_create TOKEN_STRING_LITERAL (dquote # ''abc'' @ [dquote]) 1 1)
               \<lparr>literal := StringLiteral ''abc''\<rparr>,
             (lexer_create (dquote # ''abc''))
               \<lparr>l_had_error := True,
                l_last_error := Some (error_create ERROR_LEXICAL ''Unterminated string literal''
                                        1 1 None)\<rparr>)
   \<and> \<not> l_had_error (lexer_create (dquote # ''abc''))
   \<and> position ((lexer_create (dquote # ''abc''))
               \<lparr>l_had_error := True,
                l_last_error := Some (error_create ERROR_LEXICAL ''Unterminated string literal''
                                        1 1 None)\<rparr>) = 0
   \<and> (\<exists>l''. lexer_next_token (lexer_create (dquote # ''abc'')) =
              Some ((token_create TOKEN_STRING_LITERAL (dquote # ''abc'' @ [dquote]) 1 1)
                      \<lparr>literal := StringLiteral ''abc''\<rparr>, l'')
            \<and> position l'' = 4 \<and> l_had_error l'')"
proof -
  let ?l = "lexer_create (dquote # ''abc'')"
  let ?t = "(token_create TOKEN_STRING_LITERAL (dquote # ''abc'' @ [dquote]) 1 1)
               \<lparr>literal := StringLiteral ''abc''\<rparr>"
  let ?l' = "?l\<lparr>l_had_error := True,
                l_last_error := Some (error_create ERROR_LEXICAL ''Unterminated string literal''
                                        1 1 None)\<rparr>"
  have n: "lexer_next_token ?l = Some (?t, ?l'\<lparr>position := 4, l_column := 5, current_char := NUL\<rparr>)"
    by code_simp
  have a: "\<not> l_had_error ?l" "position ?l' = 0" by code_simp+
  from peek_restores_cursor_but_keeps_error_state[where l = ?l and token = ?t and l' = ?l'] n a
  show ?thesis by simp
qed

text \<open>
  C4 (defect in read_string).  For the source text made of a double quote, abc and a backslash,
  the string literal reaches the end of input just after the backslash.  read_string consumes
  the backslash, finds the NUL, skips the escape switch, and then calls advance once more: the
  read of the next character is at index 6 of a buffer of 6 bytes (5 characters and the NUL).
  The model stops there with no result.
\<close>

theorem backslash_at_end_of_unterminated_string_reads_out_of_bounds:
  "lexer_next_token (lexer_create (dquote # ''abc'' @ [backslash])) = None
   \<and> read_string (lexer_create (dquote # ''abc'' @ [backslash])) = None
   \<and> read_string_loop
        ((lexer_create (dquote # ''abc'' @ [backslash]))\<lparr>position := 4, l_column := 5,
             current_char := backslash\<rparr>) ''abc'' = None
   \<and> advance ((lexer_create (dquote # ''abc'' @ [backslash]))\<lparr>position := 4, l_column := 5,
             current_char := backslash\<rparr>)
       = Some ((lexer_create (dquote # ''abc'' @ [backslash]))\<lparr>position := 5, l_column := 6,
             current_char := NUL\<rparr>)
   \<and> length (source (lexer_create (dquote # ''abc'' @ [backslash]))) = 5
   \<and> advance ((lexer_create (dquote # ''abc'' @ [backslash]))\<lparr>position := 5, l_column := 6,
             current_char := NUL\<rparr>) = None"
  by code_simp

end
